theory Spec2Isabelle
  imports Complex_Main "HOL-Library.AList"
begin

section \<open>Values exchanged between the stages\<close>

text \<open>
  A Python string is the list of its Unicode code points. A literal of the source is
  written \<open>lit ''...''\<close>.
\<close>

type_synonym pystr = "nat list"

definition lit :: "string \<Rightarrow> pystr" where
  "lit cs = map of_char cs"

text \<open>
  A Python float is written \<open>Finite r\<close>, standing for the double nearest to the rational
  \<open>r\<close>, where \<open>r\<close> lies below the bound at which doubles overflow (so equal rationals
  give equal floats; the rounding itself and the sign of zero are not represented), or
  it is one of the three special values.
\<close>

datatype pyfloat = Finite rat | PosInf | NegInf | NaN

text \<open>
  What \<^verbatim>\<open>json.loads\<close> can return. An integer is one the parser has produced, so within
  the interpreter's limit on the length of an integer string.
\<close>

datatype json =
    JNull
  | JBool bool
  | JInt int
  | JFloat pyfloat
  | JStr pystr
  | JList "json list"
  | JDict "(pystr \<times> json) list"

text \<open>The exceptions that can leave a stage.\<close>

datatype error =
    InvalidOperation
  | AttributeError
  | JSONDecodeError
  | ClientError
  | DatabaseError
  | DataError
  | UniqueViolation
  | ForeignKeyViolation

record line_item =
  item :: pystr
  quantity :: pyfloat
  unit_price :: pyfloat
  total :: pyfloat

record document =
  document_id :: pystr
  name :: pystr
  description :: pystr
  line_items :: "line_item list"

section \<open>Transform\<close>

subsection \<open>The interpreter\<close>

text \<open>
  Two tables of the Python interpreter are parameters of the model: the printed form
  (\<^verbatim>\<open>repr\<close>) of a float, a list or a dictionary, and the decimal digit value that the
  interpreter's Unicode database gives to a code point outside ASCII (\<open>None\<close> when the
  code point is no decimal digit). The database grows from version to version; the
  ASCII digits are fixed and are written out below.
\<close>

record interp =
  ip_repr :: "json \<Rightarrow> pystr"
  ip_decimal :: "nat \<Rightarrow> nat option"

subsection \<open>Python primitives used by Transform\<close>

text \<open>
  Whitespace as \<^verbatim>\<open>\s\<close> and \<^verbatim>\<open>str.strip\<close> see it (the same test in both): the code
  points with the Unicode property White_Space, and the four separators 28 to 31.
\<close>

definition is_space :: "nat \<Rightarrow> bool" where
  "is_space c =
     ((9 \<le> c \<and> c \<le> 13) \<or> (28 \<le> c \<and> c \<le> 32) \<or> c = 133 \<or> c = 160 \<or> c = 5760
      \<or> (8192 \<le> c \<and> c \<le> 8202) \<or> c = 8232 \<or> c = 8233 \<or> c = 8239 \<or> c = 8287
      \<or> c = 12288)"

text \<open>
  The decimal digit value of a code point: \<^verbatim>\<open>\d\<close> matches exactly the code points that
  have one, and \<^verbatim>\<open>Decimal\<close> reads a digit by it.
\<close>

definition digit_value :: "interp \<Rightarrow> nat \<Rightarrow> nat option" where
  "digit_value ip c =
     (if 48 \<le> c \<and> c \<le> 57 then Some (c - 48)
      else if c < 128 then None
      else ip_decimal ip c)"

definition is_digit :: "interp \<Rightarrow> nat \<Rightarrow> bool" where
  "is_digit ip c = (digit_value ip c \<noteq> None)"

text \<open>\<^verbatim>\<open>dict.get(key, default)\<close> on a dictionary held as an association list.\<close>

definition get :: "(pystr \<times> json) list \<Rightarrow> pystr \<Rightarrow> json \<Rightarrow> json" where
  "get d k dflt = (case map_of d k of Some v \<Rightarrow> v | None \<Rightarrow> dflt)"

text \<open>Python's truth value of an object: \<^verbatim>\<open>not text\<close> is \<open>\<not> truthy text\<close>.\<close>

fun truthy :: "json \<Rightarrow> bool" where
  "truthy JNull = False"
| "truthy (JBool b) = b"
| "truthy (JInt i) = (i \<noteq> 0)"
| "truthy (JFloat f) = (f \<noteq> Finite 0)"
| "truthy (JStr s) = (s \<noteq> [])"
| "truthy (JList xs) = (xs \<noteq> [])"
| "truthy (JDict d) = (d \<noteq> [])"

text \<open>\<^verbatim>\<open>str(n)\<close> for an integer.\<close>

function str_nat :: "nat \<Rightarrow> pystr" where
  "str_nat n =
     (if n < 10 then [48 + n]
      else str_nat (n div 10) @ [48 + n mod 10])"
  by pat_completeness auto
termination
  by (relation "measure id") auto

definition str_int :: "int \<Rightarrow> pystr" where
  "str_int i = (if i < 0 then of_char CHR ''-'' # str_nat (nat (- i)) else str_nat (nat i))"

text \<open>
  \<^verbatim>\<open>str(text)\<close>. A string is returned as it is; integers, booleans and \<^verbatim>\<open>None\<close> print
  as Python prints them; a float, a list or a dictionary prints as its \<^verbatim>\<open>repr\<close>.
\<close>

definition py_str :: "interp \<Rightarrow> json \<Rightarrow> pystr" where
  "py_str ip v =
     (case v of
        JStr s \<Rightarrow> s
      | JInt i \<Rightarrow> str_int i
      | JBool b \<Rightarrow> (if b then lit ''True'' else lit ''False'')
      | JNull \<Rightarrow> lit ''None''
      | _ \<Rightarrow> ip_repr ip v)"

text \<open>\<^verbatim>\<open>s.strip()\<close>: leading and trailing whitespace removed.\<close>

definition strip :: "pystr \<Rightarrow> pystr" where
  "strip s = rev (dropWhile is_space (rev (dropWhile is_space s)))"

text \<open>\<^verbatim>\<open>re.sub(r'\s+', ' ', s)\<close>: every maximal run of whitespace becomes one space.\<close>

function collapse_ws :: "pystr \<Rightarrow> pystr" where
  "collapse_ws [] = []"
| "collapse_ws (c # cs) =
     (if is_space c then of_char CHR '' '' # collapse_ws (dropWhile is_space cs)
      else c # collapse_ws cs)"
  by pat_completeness auto
termination
  by (relation "measure length") (auto simp: length_dropWhile_le less_Suc_eq_le)

text \<open>
  \<^verbatim>\<open>re.sub(r'[^\d.,\-]', '', value).replace(',', '.')\<close>: keep digits, period, comma and
  minus; then every comma becomes a period.
\<close>

definition keep_numeric :: "interp \<Rightarrow> nat \<Rightarrow> bool" where
  "keep_numeric ip c =
     (is_digit ip c \<or> c = of_char CHR ''.'' \<or> c = of_char CHR '','' \<or> c = of_char CHR ''-'')"

definition clean_numeric :: "interp \<Rightarrow> pystr \<Rightarrow> pystr" where
  "clean_numeric ip s =
     map (\<lambda>c. if c = of_char CHR '','' then of_char CHR ''.'' else c) (filter (keep_numeric ip) s)"

definition digits_val :: "interp \<Rightarrow> pystr \<Rightarrow> nat" where
  "digits_val ip ds =
     foldl (\<lambda>a c. 10 * a + (case digit_value ip c of Some v \<Rightarrow> v | None \<Rightarrow> 0)) 0 ds"

text \<open>
  \<^verbatim>\<open>Decimal(cleaned)\<close> on the alphabet that survives \<open>clean_numeric\<close> (digits, period,
  minus): an optional leading minus, then digits with at most one period and at least
  one digit. \<open>None\<close> is \<^verbatim>\<open>decimal.InvalidOperation\<close>.
\<close>

definition parse_decimal :: "interp \<Rightarrow> pystr \<Rightarrow> rat option" where
  "parse_decimal ip s =
     (let neg = (s \<noteq> [] \<and> hd s = of_char CHR ''-'');
          body = (if neg then tl s else s);
          ip_part = takeWhile (is_digit ip) body;
          rest = dropWhile (is_digit ip) body;
          ok = (rest = [] \<or> (hd rest = of_char CHR ''.'' \<and> list_all (is_digit ip) (tl rest)));
          fp = (if rest = [] then [] else tl rest)
      in if ok \<and> (ip_part \<noteq> [] \<or> fp \<noteq> [])
         then Some ((if neg then - 1 else 1)
                    * (of_nat (digits_val ip (ip_part @ fp)) / 10 ^ length fp))
         else None)"

text \<open>
  \<^verbatim>\<open>float(d)\<close> for a \<^verbatim>\<open>Decimal\<close> of value \<open>r\<close>: the nearest double, which is an infinity
  from \<open>2 ^ 1024 - 2 ^ 970\<close> on (half way between the largest double and \<open>2 ^ 1024\<close>);
  no exception is raised.
\<close>

definition overflow_bound :: rat where
  "overflow_bound = 2 ^ 1024 - 2 ^ 970"

definition to_float :: "rat \<Rightarrow> pyfloat" where
  "to_float r =
     (if overflow_bound \<le> r then PosInf
      else if r \<le> - overflow_bound then NegInf
      else Finite r)"

subsection \<open>The methods of Transform\<close>

text \<open>
  \<^verbatim>\<open>_to_decimal\<close>. The first branch, \<^verbatim>\<open>isinstance(value, (int, float, Decimal))\<close>, also
  takes booleans (\<^verbatim>\<open>bool\<close> is a subclass of \<^verbatim>\<open>int\<close>) and lies outside the
  \<^verbatim>\<open>try\<close>: \<^verbatim>\<open>Decimal(str(True))\<close> is \<^verbatim>\<open>Decimal('True')\<close>, which raises. A float goes
  through its shortest round-trip representation and comes back unchanged.
\<close>

fun to_decimal :: "interp \<Rightarrow> json \<Rightarrow> error + pyfloat" where
  "to_decimal ip (JBool b) = Inl InvalidOperation"
| "to_decimal ip (JInt i) = Inr (to_float (of_int i))"
| "to_decimal ip (JFloat f) = Inr f"
| "to_decimal ip (JStr s) =
     (case parse_decimal ip (clean_numeric ip s) of
        Some r \<Rightarrow> Inr (to_float r)
      | None \<Rightarrow> Inr (Finite 0))"
| "to_decimal ip v = Inr (Finite 0)"

definition clean_text :: "interp \<Rightarrow> json \<Rightarrow> pystr" where
  "clean_text ip text =
     (if \<not> truthy text \<or> text = JStr (lit ''N/A'') then lit ''N/A''
      else collapse_ws (strip (py_str ip text)))"

text \<open>The dictionary literal of one cleaned line item, evaluated field by field.\<close>

definition clean_item :: "interp \<Rightarrow> (pystr \<times> json) list \<Rightarrow> error + line_item" where
  "clean_item ip it =
     (let i = clean_text ip
                (get it (lit ''item'') (get it (lit ''description'') (get it (lit ''name'')
                  (JStr (lit ''N/A'')))))
      in case to_decimal ip (get it (lit ''quantity'') (get it (lit ''qty'') (JInt 0))) of
           Inl e \<Rightarrow> Inl e
         | Inr q \<Rightarrow>
             (case to_decimal ip
                     (get it (lit ''unit_price'') (get it (lit ''price'') (get it (lit ''unit'')
                       (JInt 0)))) of
                Inl e \<Rightarrow> Inl e
              | Inr u \<Rightarrow>
                  (case to_decimal ip (get it (lit ''total'') (get it (lit ''amount'') (JInt 0))) of
                     Inl e \<Rightarrow> Inl e
                   | Inr t \<Rightarrow> Inr \<lparr>item = i, quantity = q, unit_price = u, total = t\<rparr>)))"

text \<open>The loop of \<^verbatim>\<open>_clean_line_items\<close>: elements that are not dictionaries are skipped.\<close>

fun clean_items_loop :: "interp \<Rightarrow> json list \<Rightarrow> error + line_item list" where
  "clean_items_loop ip [] = Inr []"
| "clean_items_loop ip (JDict it # rest) =
     (case clean_item ip it of
        Inl e \<Rightarrow> Inl e
      | Inr ci \<Rightarrow>
          (case clean_items_loop ip rest of
             Inl e \<Rightarrow> Inl e
           | Inr cleaned \<Rightarrow> Inr (ci # cleaned)))"
| "clean_items_loop ip (v # rest) = clean_items_loop ip rest"

definition clean_line_items :: "interp \<Rightarrow> json \<Rightarrow> error + line_item list" where
  "clean_line_items ip items =
     (case items of
        JList xs \<Rightarrow> (if xs = [] then Inr [] else clean_items_loop ip xs)
      | _ \<Rightarrow> Inr [])"

text \<open>\<^verbatim>\<open>_clean_document\<close>; \<^verbatim>\<open>doc.get\<close> exists on dictionaries only.\<close>

definition clean_document :: "interp \<Rightarrow> json \<Rightarrow> error + document" where
  "clean_document ip doc =
     (case doc of
        JDict d \<Rightarrow>
          (let di = clean_text ip
                      (get d (lit ''document_id'') (get d (lit ''id'') (get d (lit ''number'')
                        (JStr (lit ''N/A'')))));
               nm = clean_text ip
                      (get d (lit ''name'') (get d (lit ''contractor'') (get d (lit ''supplier'')
                        (get d (lit ''client'') (JStr (lit ''N/A''))))));
               ds = clean_text ip (get d (lit ''description'') (get d (lit ''desc'') (JStr (lit ''N/A''))))
           in case clean_line_items ip (get d (lit ''line_items'') (get d (lit ''items'') (JList []))) of
                Inl e \<Rightarrow> Inl e
              | Inr its \<Rightarrow> Inr \<lparr>document_id = di, name = nm, description = ds, line_items = its\<rparr>)
      | _ \<Rightarrow> Inl AttributeError)"

text \<open>
  \<^verbatim>\<open>transform\<close>: the dictionaries are association lists in insertion order; assigning
  \<^verbatim>\<open>transformed[filename]\<close> keeps the position of a key already there.
\<close>

fun transform_loop ::
  "interp \<Rightarrow> (pystr \<times> document) list \<Rightarrow> (pystr \<times> json) list \<Rightarrow>
   error + (pystr \<times> document) list" where
  "transform_loop ip transformed [] = Inr transformed"
| "transform_loop ip transformed ((filename, data) # rest) =
     (case clean_document ip data of
        Inl e \<Rightarrow> Inl e
      | Inr doc \<Rightarrow> transform_loop ip (AList.update filename doc transformed) rest)"

definition transform ::
  "interp \<Rightarrow> (pystr \<times> json) list \<Rightarrow> error + (pystr \<times> document) list" where
  "transform ip extracted_data = transform_loop ip [] extracted_data"

section \<open>Extract\<close>

text \<open>\<^verbatim>\<open>text.find('{')\<close>: the index of the first opening brace, \<open>None\<close> for \<^verbatim>\<open>-1\<close>.\<close>

definition find_brace :: "pystr \<Rightarrow> nat option" where
  "find_brace text =
     (if of_char CHR ''{'' \<in> set text
      then Some (length (takeWhile (\<lambda>c. c \<noteq> of_char CHR ''{'') text))
      else None)"

text \<open>
  The loop \<^verbatim>\<open>for idx in range(start, len(text))\<close> over the characters from \<open>idx\<close> on, with
  the running \<^verbatim>\<open>brace_count\<close>. It returns the index at which the loop breaks, \<open>None\<close>
  when it runs to the end of the text. The count is compared with zero only after a
  closing brace has been counted.
\<close>

fun scan :: "pystr \<Rightarrow> nat \<Rightarrow> int \<Rightarrow> nat option" where
  "scan [] idx brace_count = None"
| "scan (c # cs) idx brace_count =
     (if c = of_char CHR ''{'' then scan cs (idx + 1) (brace_count + 1)
      else if c = of_char CHR ''}'' then
        (if brace_count - 1 = 0 then Some idx else scan cs (idx + 1) (brace_count - 1))
      else scan cs (idx + 1) brace_count)"

text \<open>\<^verbatim>\<open>text[i:j]\<close> for indices that are not negative.\<close>

definition slice :: "pystr \<Rightarrow> nat \<Rightarrow> nat \<Rightarrow> pystr" where
  "slice text i j = drop i (take j text)"

text \<open>
  Lines 43 to 56 of \<^verbatim>\<open>extract_text_from_images\<close> for one response text: \<open>Inr None\<close> when
  nothing is stored for the image (\<^verbatim>\<open>continue\<close>, or the loop ends without a
  \<^verbatim>\<open>break\<close>), \<open>Inl\<close> when \<^verbatim>\<open>json.loads\<close> raises. The parser \<^verbatim>\<open>json.loads\<close> belongs
  to the standard library and is the parameter \<open>loads\<close>.
\<close>

definition parse_response :: "(pystr \<Rightarrow> error + json) \<Rightarrow> pystr \<Rightarrow> error + json option" where
  "parse_response loads text =
     (case find_brace text of
        None \<Rightarrow> Inr None
      | Some start \<Rightarrow>
          (case scan (drop start text) start 0 of
             None \<Rightarrow> Inr None
           | Some idx \<Rightarrow>
               (case loads (slice text start (idx + 1)) of
                  Inl e \<Rightarrow> Inl e
                | Inr v \<Rightarrow> Inr (Some v))))"

text \<open>
  The loop over the images. Lines 14 to 41 (the read from the bucket, the model call
  and the decoding of its response) are the parameter \<open>fetch\<close>, which gives the
  response text or the exception raised. No exception is caught: the first one leaves
  the method and the results collected so far are lost.
\<close>

fun extract_loop ::
  "(pystr \<Rightarrow> error + pystr) \<Rightarrow> (pystr \<Rightarrow> error + json) \<Rightarrow> (pystr \<times> json) list \<Rightarrow>
   pystr list \<Rightarrow> error + (pystr \<times> json) list" where
  "extract_loop fetch loads results [] = Inr results"
| "extract_loop fetch loads results (i # images) =
     (case fetch i of
        Inl e \<Rightarrow> Inl e
      | Inr text \<Rightarrow>
          (case parse_response loads text of
             Inl e \<Rightarrow> Inl e
           | Inr None \<Rightarrow> extract_loop fetch loads results images
           | Inr (Some v) \<Rightarrow>
               extract_loop fetch loads (AList.update (i @ lit ''.jpg'') v results) images))"

definition extract_text_from_images ::
  "(pystr \<Rightarrow> error + pystr) \<Rightarrow> (pystr \<Rightarrow> error + json) \<Rightarrow> pystr list \<Rightarrow>
   error + (pystr \<times> json) list" where
  "extract_text_from_images fetch loads images = extract_loop fetch loads [] images"

section \<open>Load\<close>

subsection \<open>The two relations of \<^verbatim>\<open>_create_tables\<close>\<close>

text \<open>
  \<^verbatim>\<open>documents(id SERIAL PRIMARY KEY, filename VARCHAR(255) UNIQUE, document_id
  VARCHAR(255), name VARCHAR(255), description TEXT)\<close> and \<^verbatim>\<open>line_items(id SERIAL
  PRIMARY KEY, document_id INTEGER REFERENCES documents(id), item VARCHAR(255), quantity
  DECIMAL(10,2), unit_price DECIMAL(10,2), total DECIMAL(10,2))\<close>. A row holds the values
  as the columns store them: a \<^verbatim>\<open>DECIMAL\<close> column holds an exact decimal or NaN.
\<close>

datatype numeric = Num rat | NumNaN

record document_row =
  doc_pk :: nat
  filename :: pystr
  row_document_id :: pystr
  row_name :: pystr
  row_description :: pystr

record line_item_row =
  item_pk :: nat
  doc_fk :: nat
  row_item :: pystr
  row_quantity :: numeric
  row_unit_price :: numeric
  row_total :: numeric

record tables =
  documents :: "document_row list"
  line_item_rows :: "line_item_row list"

text \<open>
  The database as one connection sees it: the committed tables, the tables as changed
  by the open transaction, and the two \<^verbatim>\<open>SERIAL\<close> sequences (last value handed out).
  Sequences are not transactional: a value taken is not given back.
\<close>

record db =
  durable :: tables
  pending :: tables
  documents_id_seq :: nat
  line_items_id_seq :: nat

text \<open>The statements sent by \<^verbatim>\<open>Load\<close>, with their bound parameters.\<close>

datatype stmt =
    CreateTables
  | SelectId pystr
  | UpdateDocument pystr pystr pystr nat
  | DeleteLineItems nat
  | InsertDocument pystr pystr pystr pystr
  | InsertLineItem nat pystr pyfloat pyfloat pyfloat
  | Commit

text \<open>
  The database engine and its driver are outside the repository. Two things about them
  are parameters of the model: whether a statement is refused for a reason the model
  does not spell out (lost connection, a character the driver cannot send, and so on),
  and \<open>float_repr\<close>, the value of the shortest decimal that reads back as the double
  nearest to a rational, which is the text the driver sends for a float.
\<close>

record engine =
  rejects :: "db \<Rightarrow> stmt \<Rightarrow> bool"
  float_repr :: "rat \<Rightarrow> rat"

subsection \<open>What the columns store\<close>

text \<open>
  \<^verbatim>\<open>VARCHAR(255)\<close>: a string of at most 255 characters is stored as it is; a longer one
  is cut to 255 characters when only spaces are lost, and refused otherwise.
\<close>

definition varchar_255 :: "pystr \<Rightarrow> error + pystr" where
  "varchar_255 s =
     (if length s \<le> 255 then Inr s
      else if list_all (\<lambda>c. c = of_char CHR '' '') (drop 255 s) then Inr (take 255 s)
      else Inl DataError)"

text \<open>
  The decimal the driver sends for the float \<open>Finite r\<close>. A value with at most nine
  integer digits and six decimals has at most fifteen significant digits, so it is
  itself the shortest decimal that reads back as its double.
\<close>

definition float_literal :: "engine \<Rightarrow> rat \<Rightarrow> rat" where
  "float_literal en r =
     (if \<bar>r\<bar> < 10 ^ 9 \<and> of_int \<lfloor>r * 10 ^ 6\<rfloor> = r * 10 ^ 6 then r else float_repr en r)"

text \<open>Rounding to two decimals, a tie going away from zero.\<close>

definition round2 :: "rat \<Rightarrow> rat" where
  "round2 r =
     (if 0 \<le> r then of_int \<lfloor>r * 100 + 1 / 2\<rfloor> / 100
      else - (of_int \<lfloor>- r * 100 + 1 / 2\<rfloor> / 100))"

text \<open>
  \<^verbatim>\<open>DECIMAL(10,2)\<close>: the decimal sent is rounded to two decimals and must stay below
  \<open>10 ^ 8\<close> in absolute value; NaN is stored as NaN; an infinity is refused.
\<close>

definition decimal_10_2 :: "engine \<Rightarrow> pyfloat \<Rightarrow> error + numeric" where
  "decimal_10_2 en f =
     (case f of
        Finite r \<Rightarrow>
          (let v = round2 (float_literal en r)
           in if 10 ^ 8 \<le> \<bar>v\<bar> then Inl DataError else Inr (Num v))
      | NaN \<Rightarrow> Inr NumNaN
      | _ \<Rightarrow> Inl DataError)"

text \<open>The three columns written from a document, and the four written from a line item.\<close>

definition document_columns :: "pystr \<Rightarrow> pystr \<Rightarrow> pystr \<Rightarrow> error + pystr \<times> pystr \<times> pystr" where
  "document_columns di nm ds =
     (case varchar_255 di of
        Inl e \<Rightarrow> Inl e
      | Inr di' \<Rightarrow>
          (case varchar_255 nm of
             Inl e \<Rightarrow> Inl e
           | Inr nm' \<Rightarrow> Inr (di', nm', ds)))"

definition item_columns :: "engine \<Rightarrow> line_item \<Rightarrow> error + pystr \<times> numeric \<times> numeric \<times> numeric" where
  "item_columns en it =
     (case varchar_255 (item it) of
        Inl e \<Rightarrow> Inl e
      | Inr i \<Rightarrow>
          (case decimal_10_2 en (quantity it) of
             Inl e \<Rightarrow> Inl e
           | Inr q \<Rightarrow>
               (case decimal_10_2 en (unit_price it) of
                  Inl e \<Rightarrow> Inl e
                | Inr u \<Rightarrow>
                    (case decimal_10_2 en (total it) of
                       Inl e \<Rightarrow> Inl e
                     | Inr t \<Rightarrow> Inr (i, q, u, t)))))"

subsection \<open>The statements\<close>

text \<open>\<^verbatim>\<open>SELECT id FROM documents WHERE filename = %s\<close> and \<^verbatim>\<open>fetchone()\<close>.\<close>

definition select_id :: "engine \<Rightarrow> pystr \<Rightarrow> db \<Rightarrow> (error + nat option) \<times> db" where
  "select_id en fn db =
     (if rejects en db (SelectId fn) then (Inl DatabaseError, db)
      else (Inr (map_option doc_pk (find (\<lambda>r. filename r = fn) (documents (pending db)))), db))"

text \<open>\<^verbatim>\<open>UPDATE documents SET document_id = %s, name = %s, description = %s WHERE id = %s\<close>.\<close>

definition update_document ::
  "engine \<Rightarrow> pystr \<Rightarrow> pystr \<Rightarrow> pystr \<Rightarrow> nat \<Rightarrow> db \<Rightarrow> (error + unit) \<times> db" where
  "update_document en di nm ds doc_id db =
     (if rejects en db (UpdateDocument di nm ds doc_id) then (Inl DatabaseError, db)
      else
        (case document_columns di nm ds of
           Inl e \<Rightarrow> (Inl e, db)
         | Inr (di', nm', ds') \<Rightarrow>
             (Inr (),
              db\<lparr>pending := (pending db)\<lparr>documents :=
                   map (\<lambda>r. if doc_pk r = doc_id
                             then r\<lparr>row_document_id := di', row_name := nm', row_description := ds'\<rparr>
                             else r)
                       (documents (pending db))\<rparr>\<rparr>)))"

text \<open>\<^verbatim>\<open>DELETE FROM line_items WHERE document_id = %s\<close>.\<close>

definition delete_line_items :: "engine \<Rightarrow> nat \<Rightarrow> db \<Rightarrow> (error + unit) \<times> db" where
  "delete_line_items en doc_id db =
     (if rejects en db (DeleteLineItems doc_id) then (Inl DatabaseError, db)
      else (Inr (),
            db\<lparr>pending := (pending db)\<lparr>line_item_rows :=
                 filter (\<lambda>i. doc_fk i \<noteq> doc_id) (line_item_rows (pending db))\<rparr>\<rparr>))"

text \<open>
  \<^verbatim>\<open>INSERT INTO documents (filename, document_id, name, description) ... RETURNING id\<close>.
  The key comes from the sequence; the primary key and \<^verbatim>\<open>UNIQUE (filename)\<close> are
  checked on the values as stored.
\<close>

definition insert_document ::
  "engine \<Rightarrow> pystr \<Rightarrow> pystr \<Rightarrow> pystr \<Rightarrow> pystr \<Rightarrow> db \<Rightarrow> (error + nat) \<times> db" where
  "insert_document en fn di nm ds db =
     (if rejects en db (InsertDocument fn di nm ds) then (Inl DatabaseError, db)
      else
        (let new_id = Suc (documents_id_seq db);
             db1 = db\<lparr>documents_id_seq := new_id\<rparr>;
             docs = documents (pending db)
         in case varchar_255 fn of
              Inl e \<Rightarrow> (Inl e, db1)
            | Inr fn' \<Rightarrow>
                (case document_columns di nm ds of
                   Inl e \<Rightarrow> (Inl e, db1)
                 | Inr (di', nm', ds') \<Rightarrow>
                     if new_id \<in> set (map doc_pk docs) \<or> fn' \<in> set (map filename docs)
                     then (Inl UniqueViolation, db1)
                     else (Inr new_id,
                           db1\<lparr>pending := (pending db)\<lparr>documents :=
                                 docs @ [\<lparr>doc_pk = new_id, filename = fn', row_document_id = di',
                                           row_name = nm', row_description = ds'\<rparr>]\<rparr>\<rparr>))))"

text \<open>
  \<^verbatim>\<open>INSERT INTO line_items (document_id, item, quantity, unit_price, total)\<close>. The
  primary key and the foreign key \<^verbatim>\<open>REFERENCES documents(id)\<close> are checked.
\<close>

definition insert_line_item :: "engine \<Rightarrow> nat \<Rightarrow> line_item \<Rightarrow> db \<Rightarrow> (error + unit) \<times> db" where
  "insert_line_item en doc_id it db =
     (if rejects en db (InsertLineItem doc_id (item it) (quantity it) (unit_price it) (total it))
      then (Inl DatabaseError, db)
      else
        (let new_id = Suc (line_items_id_seq db);
             db1 = db\<lparr>line_items_id_seq := new_id\<rparr>;
             rows = line_item_rows (pending db)
         in case item_columns en it of
              Inl e \<Rightarrow> (Inl e, db1)
            | Inr (i, q, u, t) \<Rightarrow>
                if new_id \<in> set (map item_pk rows) then (Inl UniqueViolation, db1)
                else if doc_id \<notin> set (map doc_pk (documents (pending db)))
                then (Inl ForeignKeyViolation, db1)
                else (Inr (),
                      db1\<lparr>pending := (pending db)\<lparr>line_item_rows :=
                            rows @ [\<lparr>item_pk = new_id, doc_fk = doc_id, row_item = i,
                                      row_quantity = q, row_unit_price = u, row_total = t\<rparr>]\<rparr>\<rparr>)))"

text \<open>\<^verbatim>\<open>self.conn.commit()\<close>: the pending tables become the durable ones.\<close>

definition commit :: "engine \<Rightarrow> db \<Rightarrow> (error + unit) \<times> db" where
  "commit en db =
     (if rejects en db Commit then (Inl DatabaseError, db) else (Inr (), db\<lparr>durable := pending db\<rparr>))"

subsection \<open>The method \<^verbatim>\<open>load\<close>\<close>

text \<open>The inner loop \<^verbatim>\<open>for item in doc['line_items']\<close>.\<close>

fun insert_items :: "engine \<Rightarrow> nat \<Rightarrow> line_item list \<Rightarrow> db \<Rightarrow> (error + unit) \<times> db" where
  "insert_items en doc_id [] db = (Inr (), db)"
| "insert_items en doc_id (it # its) db =
     (case insert_line_item en doc_id it db of
        (Inl e, db') \<Rightarrow> (Inl e, db')
      | (Inr u, db') \<Rightarrow> insert_items en doc_id its db')"

text \<open>
  The body of the outer loop for one \<^verbatim>\<open>(filename, doc)\<close>. \<^verbatim>\<open>if existing:\<close> tests the
  fetched row, a one-element tuple, which is true whatever the key in it.
\<close>

definition upsert :: "engine \<Rightarrow> pystr \<Rightarrow> document \<Rightarrow> db \<Rightarrow> (error + unit) \<times> db" where
  "upsert en fn doc db =
     (case select_id en fn db of
        (Inl e, db1) \<Rightarrow> (Inl e, db1)
      | (Inr existing, db1) \<Rightarrow>
          (case existing of
             Some doc_id \<Rightarrow>
               (case update_document en (document_id doc) (name doc) (description doc) doc_id db1 of
                  (Inl e, db2) \<Rightarrow> (Inl e, db2)
                | (Inr u, db2) \<Rightarrow>
                    (case delete_line_items en doc_id db2 of
                       (Inl e, db3) \<Rightarrow> (Inl e, db3)
                     | (Inr u, db3) \<Rightarrow> insert_items en doc_id (line_items doc) db3))
           | None \<Rightarrow>
               (case insert_document en fn (document_id doc) (name doc) (description doc) db1 of
                  (Inl e, db2) \<Rightarrow> (Inl e, db2)
                | (Inr doc_id, db2) \<Rightarrow> insert_items en doc_id (line_items doc) db2)))"

fun load_loop :: "engine \<Rightarrow> (pystr \<times> document) list \<Rightarrow> db \<Rightarrow> (error + unit) \<times> db" where
  "load_loop en [] db = (Inr (), db)"
| "load_loop en ((fn, doc) # rest) db =
     (case upsert en fn doc db of
        (Inl e, db') \<Rightarrow> (Inl e, db')
      | (Inr u, db') \<Rightarrow> load_loop en rest db')"

text \<open>
  \<^verbatim>\<open>load\<close>: the loop, then the one \<^verbatim>\<open>commit()\<close>; the number returned is the count in
  the message printed at the end. There is no \<^verbatim>\<open>try\<close>: an exception leaves the
  method before the commit.
\<close>

definition load :: "engine \<Rightarrow> (pystr \<times> document) list \<Rightarrow> db \<Rightarrow> (error + nat) \<times> db" where
  "load en transformed_data db =
     (case load_loop en transformed_data db of
        (Inl e, db') \<Rightarrow> (Inl e, db')
      | (Inr u, db') \<Rightarrow>
          (case commit en db' of
             (Inl e, db'') \<Rightarrow> (Inl e, db'')
           | (Inr u, db'') \<Rightarrow> (Inr (length transformed_data), db'')))"

subsection \<open>The life of a connection\<close>

text \<open>
  \<^verbatim>\<open>_create_tables\<close>: both statements are \<^verbatim>\<open>CREATE TABLE IF NOT EXISTS\<close>, followed by a
  commit; a relation that does not exist yet is an empty list here.
\<close>

definition create_tables :: "engine \<Rightarrow> db \<Rightarrow> (error + unit) \<times> db" where
  "create_tables en db =
     (if rejects en db CreateTables then (Inl DatabaseError, db)
      else (Inr (), db\<lparr>durable := pending db\<rparr>))"

text \<open>A new connection starts its transaction from the durable tables.\<close>

definition connect :: "db \<Rightarrow> db" where
  "connect db = db\<lparr>pending := durable db\<rparr>"

text \<open>The constructor of \<^verbatim>\<open>Load\<close>.\<close>

definition Load_init :: "engine \<Rightarrow> db \<Rightarrow> (error + unit) \<times> db" where
  "Load_init en db = create_tables en (connect db)"

text \<open>
  \<^verbatim>\<open>close\<close>, and equally a connection dropped with its \<^verbatim>\<open>Load\<close> object after an
  exception: what was not committed is discarded by the server.
\<close>

definition close :: "db \<Rightarrow> db" where
  "close db = db\<lparr>pending := durable db\<rparr>"

text \<open>One run of the Load stage as \<^verbatim>\<open>run_etl\<close> performs it (lines 24 to 26).\<close>

definition run_load :: "engine \<Rightarrow> (pystr \<times> document) list \<Rightarrow> db \<Rightarrow> (error + nat) \<times> db" where
  "run_load en batch db =
     (case Load_init en db of
        (Inl e, db') \<Rightarrow> (Inl e, close db')
      | (Inr u, db') \<Rightarrow> (case load en batch db' of (r, db'') \<Rightarrow> (r, close db'')))"

text \<open>A sequence of runs, whatever the outcome of each.\<close>

fun load_runs :: "engine \<Rightarrow> (pystr \<times> document) list list \<Rightarrow> db \<Rightarrow> db" where
  "load_runs en [] db = db"
| "load_runs en (batch # batches) db = load_runs en batches (snd (run_load en batch db))"

section \<open>The pipeline\<close>

text \<open>
  Everything \<^verbatim>\<open>run_etl\<close> calls outside the repository: the extraction call, the JSON
  parser, the interpreter, the database engine, and the report step (\<^verbatim>\<open>Analyze\<close>,
  which reads the durable tables and calls the model again).
\<close>

record env =
  env_fetch :: "pystr \<Rightarrow> error + pystr"
  env_loads :: "pystr \<Rightarrow> error + json"
  env_interp :: interp
  env_engine :: engine
  env_report :: "tables \<Rightarrow> error + unit"

text \<open>\<^verbatim>\<open>run_etl\<close>: the stages in sequence, with no exception handler.\<close>

definition run_etl :: "env \<Rightarrow> pystr list \<Rightarrow> db \<Rightarrow> (error + unit) \<times> db" where
  "run_etl env images db =
     (case extract_text_from_images (env_fetch env) (env_loads env) images of
        Inl e \<Rightarrow> (Inl e, db)
      | Inr extracted_data \<Rightarrow>
          (case transform (env_interp env) extracted_data of
             Inl e \<Rightarrow> (Inl e, db)
           | Inr transformed_data \<Rightarrow>
               (case run_load (env_engine env) transformed_data db of
                  (Inl e, db') \<Rightarrow> (Inl e, db')
                | (Inr n, db') \<Rightarrow>
                    (case env_report env (durable db') of
                       Inl e \<Rightarrow> (Inl e, db')
                     | Inr u \<Rightarrow> (Inr (), db')))))"

section \<open>The notions of the specification\<close>

subsection \<open>The alias policy\<close>

text \<open>
  The value of the first alias key that is present; the default when none is. This
  definition follows the specification, not the source, and is compared with the nested
  \<^verbatim>\<open>get\<close> calls of the source below.
\<close>

fun first_alias :: "pystr list \<Rightarrow> (pystr \<times> json) list \<Rightarrow> json \<Rightarrow> json" where
  "first_alias [] d dflt = dflt"
| "first_alias (k # ks) d dflt = (case map_of d k of Some v \<Rightarrow> v | None \<Rightarrow> first_alias ks d dflt)"


subsection \<open>Balanced spans\<close>

text \<open>Brace depth of a text: opening braces minus closing braces.\<close>

fun depth :: "pystr \<Rightarrow> int" where
  "depth [] = 0"
| "depth (c # cs) =
     (if c = of_char CHR ''{'' then 1 else if c = of_char CHR ''}'' then - 1 else 0) + depth cs"

text \<open>
  A balanced span under simple depth counting: it starts with an opening brace, its depth
  is zero at its end and positive at every earlier position.
\<close>

definition balanced_span :: "pystr \<Rightarrow> bool" where
  "balanced_span s =
     (s \<noteq> [] \<and> hd s = of_char CHR ''{'' \<and> depth s = 0
      \<and> (\<forall>n\<in>{1..<length s}. 0 < depth (take n s)))"

text \<open>A text that starts with an opening brace and whose depth never returns to zero.\<close>

definition never_closes :: "pystr \<Rightarrow> bool" where
  "never_closes s =
     (s \<noteq> [] \<and> hd s = of_char CHR ''{'' \<and> (\<forall>n\<in>{1..length s}. 0 < depth (take n s)))"

subsection \<open>The persisted state\<close>

text \<open>
  The constraints the schema declares: primary keys and filenames are unique, and every
  line-item row references a document row.
\<close>

definition wf_tables :: "tables \<Rightarrow> bool" where
  "wf_tables t =
     (distinct (map doc_pk (documents t)) \<and> distinct (map filename (documents t))
      \<and> distinct (map item_pk (line_item_rows t))
      \<and> (\<forall>i\<in>set (line_item_rows t). doc_fk i \<in> set (map doc_pk (documents t))))"

text \<open>The identity of the document rows: surrogate key and natural key.\<close>

definition doc_keys :: "tables \<Rightarrow> (nat \<times> pystr) set" where
  "doc_keys t = set (map (\<lambda>r. (doc_pk r, filename r)) (documents t))"

text \<open>The document rows stored for an input name, and the line-item rows of a document.\<close>

definition rows_named :: "pystr \<Rightarrow> tables \<Rightarrow> document_row list" where
  "rows_named fn t = filter (\<lambda>r. filename r = fn) (documents t)"

definition item_rows_of :: "nat \<Rightarrow> tables \<Rightarrow> line_item_row list" where
  "item_rows_of doc_id t = filter (\<lambda>i. doc_fk i = doc_id) (line_item_rows t)"

text \<open>The four values a line-item row holds beside its keys.\<close>

definition row_values :: "line_item_row \<Rightarrow> pystr \<times> numeric \<times> numeric \<times> numeric" where
  "row_values i = (row_item i, row_quantity i, row_unit_price i, row_total i)"

text \<open>
  The tables hold exactly one row for the name, its scalar fields are those of the
  document as the columns store them, and the line-item rows under it are, in order,
  the document's line items as the columns store them.
\<close>

definition holds_document :: "engine \<Rightarrow> pystr \<Rightarrow> document \<Rightarrow> tables \<Rightarrow> bool" where
  "holds_document en fn doc t =
     (case rows_named fn t of
        [r] \<Rightarrow>
          Inr (row_document_id r, row_name r, row_description r)
            = document_columns (document_id doc) (name doc) (description doc)
          \<and> map (\<lambda>i. Inr (row_values i)) (item_rows_of (doc_pk r) t)
            = map (item_columns en) (line_items doc)
      | _ \<Rightarrow> False)"

section \<open>Example data\<close>

text \<open>An interpreter whose two tables are never consulted by the examples.\<close>

definition plain :: interp where
  "plain = \<lparr>ip_repr = (\<lambda>v. []), ip_decimal = (\<lambda>c. None)\<rparr>"

text \<open>
  An engine that refuses nothing, and one that refuses the insertion of one file. Their
  \<open>float_repr\<close> is never consulted by the examples.
\<close>

definition accepting :: engine where
  "accepting = \<lparr>rejects = (\<lambda>db st. False), float_repr = (\<lambda>r. r)\<rparr>"

definition rejecting_001 :: engine where
  "rejecting_001 =
     \<lparr>rejects = (\<lambda>db st. case st of InsertDocument fn di nm ds \<Rightarrow> fn = lit ''001.jpg'' | _ \<Rightarrow> False),
      float_repr = (\<lambda>r. r)\<rparr>"

definition empty_tables :: tables where
  "empty_tables = \<lparr>documents = [], line_item_rows = []\<rparr>"

definition empty_db :: db where
  "empty_db = \<lparr>durable = empty_tables, pending = empty_tables, documents_id_seq = 0, line_items_id_seq = 0\<rparr>"

definition widget :: line_item where
  "widget = \<lparr>item = lit ''Widget'', quantity = Finite 2, unit_price = Finite (21 / 2), total = Finite 0\<rparr>"

definition bolt :: line_item where
  "bolt = \<lparr>item = lit ''Bolt'', quantity = Finite 3, unit_price = Finite 4, total = Finite 12\<rparr>"

definition doc_v1 :: document where
  "doc_v1 = \<lparr>document_id = lit ''INV-1'', name = lit ''Acme'', description = lit ''N/A'', line_items = [widget]\<rparr>"

definition doc_v2 :: document where
  "doc_v2 = \<lparr>document_id = lit ''INV-2'', name = lit ''Acme Ltd'', description = lit ''parts'', line_items = [bolt, widget]\<rparr>"

definition tables_v1 :: tables where
  "tables_v1 =
     \<lparr>documents =
        [\<lparr>doc_pk = 1, filename = lit ''000.jpg'', row_document_id = lit ''INV-1'', row_name = lit ''Acme'',
          row_description = lit ''N/A''\<rparr>],
      line_item_rows =
        [\<lparr>item_pk = 1, doc_fk = 1, row_item = lit ''Widget'', row_quantity = Num 2,
          row_unit_price = Num (21 / 2), row_total = Num 0\<rparr>]\<rparr>"

definition tables_v2 :: tables where
  "tables_v2 =
     \<lparr>documents =
        [\<lparr>doc_pk = 1, filename = lit ''000.jpg'', row_document_id = lit ''INV-2'', row_name = lit ''Acme Ltd'',
          row_description = lit ''parts''\<rparr>],
      line_item_rows =
        [\<lparr>item_pk = 2, doc_fk = 1, row_item = lit ''Bolt'', row_quantity = Num 3,
          row_unit_price = Num 4, row_total = Num 12\<rparr>,
         \<lparr>item_pk = 3, doc_fk = 1, row_item = lit ''Widget'', row_quantity = Num 2,
          row_unit_price = Num (21 / 2), row_total = Num 0\<rparr>]\<rparr>"

text \<open>The first document written but not yet committed.\<close>

definition db_midway :: db where
  "db_midway = \<lparr>durable = empty_tables, pending = tables_v1, documents_id_seq = 1, line_items_id_seq = 1\<rparr>"

definition db_v1 :: db where
  "db_v1 = \<lparr>durable = tables_v1, pending = tables_v1, documents_id_seq = 1, line_items_id_seq = 1\<rparr>"

definition db_v2 :: db where
  "db_v2 = \<lparr>durable = tables_v2, pending = tables_v2, documents_id_seq = 1, line_items_id_seq = 3\<rparr>"

text \<open>A document whose numbers have three decimals, and the tables after it is loaded.\<close>

definition gasket :: line_item where
  "gasket = \<lparr>item = lit ''Gasket'', quantity = Finite (469 / 200), unit_price = Finite (2111 / 200),
              total = Finite (1 / 200)\<rparr>"

definition doc_frac :: document where
  "doc_frac = \<lparr>document_id = lit ''INV-3'', name = lit ''Acme'', description = lit ''N/A'', line_items = [gasket]\<rparr>"

text \<open>Two names in the store, each with one line item, and the store after the second is reloaded.\<close>

definition tables_ab :: tables where
  "tables_ab =
     \<lparr>documents =
        [\<lparr>doc_pk = 1, filename = lit ''a.jpg'', row_document_id = lit ''INV-1'', row_name = lit ''Acme'',
          row_description = lit ''N/A''\<rparr>,
         \<lparr>doc_pk = 2, filename = lit ''b.jpg'', row_document_id = lit ''INV-1'', row_name = lit ''Acme'',
          row_description = lit ''N/A''\<rparr>],
      line_item_rows =
        [\<lparr>item_pk = 1, doc_fk = 1, row_item = lit ''Widget'', row_quantity = Num 2,
          row_unit_price = Num (21 / 2), row_total = Num 0\<rparr>,
         \<lparr>item_pk = 2, doc_fk = 2, row_item = lit ''Widget'', row_quantity = Num 2,
          row_unit_price = Num (21 / 2), row_total = Num 0\<rparr>]\<rparr>"

definition db_ab :: db where
  "db_ab = \<lparr>durable = tables_ab, pending = tables_ab, documents_id_seq = 2, line_items_id_seq = 2\<rparr>"

definition tables_ab2 :: tables where
  "tables_ab2 =
     \<lparr>documents =
        [\<lparr>doc_pk = 1, filename = lit ''a.jpg'', row_document_id = lit ''INV-1'', row_name = lit ''Acme'',
          row_description = lit ''N/A''\<rparr>,
         \<lparr>doc_pk = 2, filename = lit ''b.jpg'', row_document_id = lit ''INV-2'', row_name = lit ''Acme Ltd'',
          row_description = lit ''parts''\<rparr>],
      line_item_rows =
        [\<lparr>item_pk = 1, doc_fk = 1, row_item = lit ''Widget'', row_quantity = Num 2,
          row_unit_price = Num (21 / 2), row_total = Num 0\<rparr>,
         \<lparr>item_pk = 3, doc_fk = 2, row_item = lit ''Bolt'', row_quantity = Num 3,
          row_unit_price = Num 4, row_total = Num 12\<rparr>,
         \<lparr>item_pk = 4, doc_fk = 2, row_item = lit ''Widget'', row_quantity = Num 2,
          row_unit_price = Num (21 / 2), row_total = Num 0\<rparr>]\<rparr>"

definition db_ab2 :: db where
  "db_ab2 = \<lparr>durable = tables_ab2, pending = tables_ab2, documents_id_seq = 2, line_items_id_seq = 4\<rparr>"

text \<open>The extracted document of the end-to-end scenario, and a response text carrying it.\<close>

definition invoice :: json where
  "invoice =
     JDict [(lit ''document_id'', JStr (lit ''INV-1'')), (lit ''name'', JStr (lit ''Acme'')),
            (lit ''line_items'',
             JList [JDict [(lit ''item'', JStr (lit ''Widget'')), (lit ''qty'', JStr (lit ''2'')),
                           (lit ''price'', JStr (lit ''10,50''))]])]"

definition invoice_span :: pystr where
  \<open>invoice_span =
     lit ''{"document_id":"INV-1","name":"Acme","line_items":[{"item":"Widget","qty":"2","price":"10,50"}]}''\<close>

definition invoice_response :: pystr where
  "invoice_response = lit ''Here is the JSON: '' @ invoice_span @ lit '' Done.''"

text \<open>A stand-in for \<^verbatim>\<open>json.loads\<close> that knows the one text of the scenario.\<close>

definition loads_stub :: "pystr \<Rightarrow> error + json" where
  "loads_stub s = (if s = invoice_span then Inr invoice else Inl JSONDecodeError)"

text \<open>
  Two environments for the batch \<^verbatim>\<open>['000', '001']\<close>: in the first the response for
  \<^verbatim>\<open>001\<close> holds no object, in the second the call for \<^verbatim>\<open>001\<close> raises.
\<close>

definition env_no_object :: env where
  "env_no_object =
     \<lparr>env_fetch = (\<lambda>i. if i = lit ''000'' then Inr invoice_response
                        else Inr (lit ''I cannot read this image.'')),
      env_loads = loads_stub,
      env_interp = plain,
      env_engine = accepting,
      env_report = (\<lambda>t. Inr ())\<rparr>"

definition env_unavailable :: env where
  "env_unavailable =
     \<lparr>env_fetch = (\<lambda>i. if i = lit ''000'' then Inr invoice_response else Inl ClientError),
      env_loads = loads_stub,
      env_interp = plain,
      env_engine = accepting,
      env_report = (\<lambda>t. Inr ())\<rparr>"

text \<open>The store after the three-decimal document is loaded, its line item under key \<open>k\<close>.\<close>

definition tables_frac :: "nat \<Rightarrow> tables" where
  "tables_frac k =
     \<lparr>documents =
        [\<lparr>doc_pk = 1, filename = lit ''000.jpg'', row_document_id = lit ''INV-3'', row_name = lit ''Acme'',
          row_description = lit ''N/A''\<rparr>],
      line_item_rows =
        [\<lparr>item_pk = k, doc_fk = 1, row_item = lit ''Gasket'', row_quantity = Num (47 / 20),
          row_unit_price = Num (264 / 25), row_total = Num (1 / 100)\<rparr>]\<rparr>"

definition db_frac :: "nat \<Rightarrow> db" where
  "db_frac k = \<lparr>durable = tables_frac k, pending = tables_frac k, documents_id_seq = 1, line_items_id_seq = k\<rparr>"

section \<open>Properties of Transform\<close>



lemma clean_text_falsy: "\<not> truthy v \<Longrightarrow> clean_text ip v = lit ''N/A''"
  by (simp add: clean_text_def)






text \<open>
  Claim C5 (the cleaned text is never the empty string). The code does not meet it: the
  emptiness test is made on the raw value, before \<^verbatim>\<open>strip()\<close>, so a string of
  whitespace only passes the test and is then stripped to the empty string.
\<close>

theorem clean_text_blank_is_empty:
  "clean_text ip (JStr (lit ''   '')) = []"
  by (simp add: lit_def clean_text_def strip_def is_space_def py_str_def)

theorem clean_text_blank_is_empty_witness:
  "clean_text plain (JStr (lit ''   '')) = []"
  using clean_text_blank_is_empty [of plain] .

text \<open>What does hold: an empty value or the sentinel gives the sentinel.\<close>

lemma clean_text_empty_or_sentinel:
  "clean_text ip (JStr []) = lit ''N/A''" "clean_text ip JNull = lit ''N/A''"
  "clean_text ip (JStr (lit ''N/A'')) = lit ''N/A''"
  by (simp_all add: clean_text_def)

text \<open>
  Claim C6 (numeric coercion is total and every failure yields 0.0). The code does not
  meet it: a boolean passes the \<^verbatim>\<open>isinstance(value, (int, float, Decimal))\<close> test, and
  \<^verbatim>\<open>Decimal(str(True))\<close> raises \<^verbatim>\<open>decimal.InvalidOperation\<close> outside the \<^verbatim>\<open>try\<close>.
\<close>

theorem to_decimal_bool_raises:
  "to_decimal ip (JBool True) = Inl InvalidOperation
   \<and> to_decimal ip (JBool False) = Inl InvalidOperation"
  by simp

text \<open>On every value that is not a boolean the coercion does return.\<close>

lemma to_decimal_returns: "(\<forall>b. v \<noteq> JBool b) \<Longrightarrow> \<exists>f. to_decimal ip v = Inr f"
  by (cases v) (auto split: option.splits)

text \<open>Beyond the range of the doubles the coercion gives an infinity.\<close>

lemma to_decimal_overflow: "to_decimal ip (JInt (10 ^ 400)) = Inr PosInf"
  by (simp add: to_float_def overflow_bound_def)

text \<open>
  Claim C9 (an earlier alias that is present with a null or falsy value wins and the field
  becomes the default). For the numeric fields the code does not meet it at the falsy
  value \<^verbatim>\<open>False\<close>: the earlier alias does win, but its coercion raises instead of giving
  0.0 (the defect of claim C6).
\<close>

theorem falsy_alias_numeric_raises:
  "clean_line_items ip (JList [JDict [(lit ''quantity'', JBool False), (lit ''qty'', JStr (lit ''5''))]])
     = Inl InvalidOperation"
  by (simp add: lit_def clean_line_items_def clean_item_def get_def)

text \<open>
  What does hold: a key that is present wins whatever its value, a falsy value in a text
  field gives the sentinel, and null in a numeric field gives 0.0.
\<close>

lemma present_alias_wins: "map_of d k = Some v \<Longrightarrow> first_alias (k # ks) d dflt = v"
  by simp

lemma null_alias_numeric:
  "map_of d k = Some JNull \<Longrightarrow> to_decimal ip (first_alias (k # ks) d dflt) = Inr (Finite 0)"
  by simp

text \<open>
  Claim C10 (transform returns a mapping with the same filenames as its input). The code
  does not meet it on every input: the exception of claim C6 leaves \<^verbatim>\<open>transform\<close>, which
  then returns nothing.
\<close>

theorem transform_raises_on_bool:
  "transform ip
     [(lit ''000.jpg'', JDict [(lit ''line_items'', JList [JDict [(lit ''quantity'', JBool True)]])])]
     = Inl InvalidOperation"
  by (simp add: lit_def transform_def clean_document_def clean_line_items_def clean_item_def get_def)

text \<open>What does hold: when \<^verbatim>\<open>transform\<close> returns, the filenames are those of the input.\<close>

lemma transform_loop_keys:
  "transform_loop ip acc xs = Inr ys \<Longrightarrow> fst ` set ys = fst ` set acc \<union> fst ` set xs"
proof (induction xs arbitrary: acc)
  case Nil
  then show ?case by simp
next
  case (Cons p xs)
  obtain filename data where p: "p = (filename, data)" by (cases p)
  from Cons.prems p obtain doc where
    doc: "clean_document ip data = Inr doc"
    and rest: "transform_loop ip (AList.update filename doc acc) xs = Inr ys"
    by (auto split: sum.splits)
  from Cons.IH [OF rest] show ?case
    by (auto simp: p dom_update)
qed

lemma transform_keys: "transform ip xs = Inr ys \<Longrightarrow> fst ` set ys = fst ` set xs"
  using transform_loop_keys [of ip "[]" xs ys] by (simp add: transform_def)

section \<open>Properties of Extract\<close>

lemma find_brace_none: "of_char CHR ''{'' \<notin> set text \<Longrightarrow> find_brace text = None"
  by (simp add: find_brace_def)

lemma find_brace_prefix:
  "of_char CHR ''{'' \<notin> set pre \<Longrightarrow> find_brace (pre @ of_char CHR ''{'' # rest) = Some (length pre)"
  by (induction pre) (auto simp: find_brace_def)

lemma scan_closes:
  "0 < bc \<Longrightarrow> n < length cs \<Longrightarrow> bc + depth (take (Suc n) cs) = 0 \<Longrightarrow>
   (\<forall>m\<le>n. 0 < bc + depth (take m cs)) \<Longrightarrow> scan cs idx bc = Some (idx + n)"
proof (induction cs arbitrary: bc n idx)
  case Nil
  then show ?case by simp
next
  case (Cons c cs)
  show ?case
  proof (cases n)
    case 0
    with Cons.prems show ?thesis by (auto split: if_splits)
  next
    case (Suc k)
    let ?bc' = "bc + depth [c]"
    from Cons.prems(4) Suc have one: "0 < bc + depth (take 1 (c # cs))" by (metis One_nat_def le_add1 plus_1_eq_Suc)
    then have pos: "0 < ?bc'" by simp
    have k: "k < length cs" using Cons.prems(2) Suc by simp
    have z: "?bc' + depth (take (Suc k) cs) = 0" using Cons.prems(3) Suc by simp
    have all: "\<forall>m\<le>k. 0 < ?bc' + depth (take m cs)"
    proof (intro allI impI)
      fix m assume "m \<le> k"
      then have "Suc m \<le> n" using Suc by simp
      with Cons.prems(4) have "0 < bc + depth (take (Suc m) (c # cs))" by blast
      then show "0 < ?bc' + depth (take m cs)" by simp
    qed
    from Cons.IH [OF pos k z all, of "idx + 1"]
    have "scan cs (idx + 1) ?bc' = Some (idx + 1 + k)" .
    with pos Suc show ?thesis by (auto split: if_splits)
  qed
qed

lemma scan_never:
  "0 < bc \<Longrightarrow> (\<forall>m\<le>length cs. 0 < bc + depth (take m cs)) \<Longrightarrow> scan cs idx bc = None"
proof (induction cs arbitrary: bc idx)
  case Nil
  then show ?case by simp
next
  case (Cons c cs)
  let ?bc' = "bc + depth [c]"
  from Cons.prems(2) have "0 < bc + depth (take 1 (c # cs))"
    by (metis One_nat_def Suc_leI length_Cons zero_less_Suc)
  then have pos: "0 < ?bc'" by simp
  have all: "\<forall>m\<le>length cs. 0 < ?bc' + depth (take m cs)"
  proof (intro allI impI)
    fix m assume "m \<le> length cs"
    then have "Suc m \<le> length (c # cs)" by simp
    with Cons.prems(2) have "0 < bc + depth (take (Suc m) (c # cs))" by blast
    then show "0 < ?bc' + depth (take m cs)" by simp
  qed
  from Cons.IH [OF pos all, of "idx + 1"] have "scan cs (idx + 1) ?bc' = None" .
  with pos show ?case by (auto split: if_splits)
qed

lemma scan_object:
  assumes "balanced_span obj"
  shows "scan (obj @ post) start 0 = Some (start + (length obj - 1))"
proof -
  from assms obtain cs where obj: "obj = of_char CHR ''{'' # cs"
    by (cases obj) (auto simp: balanced_span_def)
  from assms obj have d: "1 + depth cs = 0" by (simp add: balanced_span_def)
  then have ne: "cs \<noteq> []" by auto
  define n where "n = length cs - 1"
  have n: "n < length (cs @ post)" "Suc n = length cs" using ne by (cases cs; simp add: n_def)+
  have z: "1 + depth (take (Suc n) (cs @ post)) = 0" using d n by simp
  have all: "\<forall>m\<le>n. 0 < 1 + depth (take m (cs @ post))"
  proof (intro allI impI)
    fix m assume m: "m \<le> n"
    then have "Suc m \<in> {1..<length obj}" using n obj by simp
    with assms have "0 < depth (take (Suc m) obj)" unfolding balanced_span_def by blast
    then have "0 < 1 + depth (take m cs)" by (simp add: obj)
    then show "0 < 1 + depth (take m (cs @ post))" using m n by simp
  qed
  have "scan (cs @ post) (start + 1) 1 = Some (start + 1 + n)"
    by (rule scan_closes [OF _ n(1) z all]) simp
  then show ?thesis using n obj by simp
qed

lemma scan_open:
  assumes "never_closes rest"
  shows "scan rest start 0 = None"
proof -
  from assms obtain cs where rest: "rest = of_char CHR ''{'' # cs"
    by (cases rest) (auto simp: never_closes_def)
  have all: "\<forall>m\<le>length cs. 0 < 1 + depth (take m cs)"
  proof (intro allI impI)
    fix m assume "m \<le> length cs"
    then have "Suc m \<in> {1..length rest}" using rest by simp
    with assms have "0 < depth (take (Suc m) rest)" unfolding never_closes_def by blast
    then show "0 < 1 + depth (take m cs)" by (simp add: rest)
  qed
  have "scan cs (start + 1) 1 = None"
    by (rule scan_never [OF _ all]) simp
  then show ?thesis by (simp add: rest)
qed

text \<open>
  Claim C3. When the text is some prose without an opening brace, then a balanced span,
  then anything at all (further objects included), the parser hands exactly that span to
  \<^verbatim>\<open>json.loads\<close> and returns what it returns, unchanged. When the text holds no
  opening brace, or the depth counted from the first opening brace never returns to
  zero, nothing is produced for the input.
\<close>

theorem first_balanced_object:
  "(of_char CHR ''{'' \<notin> set pre \<and> balanced_span obj \<longrightarrow>
      parse_response loads (pre @ obj @ post) =
        (case loads obj of Inl e \<Rightarrow> Inl e | Inr v \<Rightarrow> Inr (Some v)))
   \<and> (of_char CHR ''{'' \<notin> set text \<longrightarrow> parse_response loads text = Inr None)
   \<and> (of_char CHR ''{'' \<notin> set pre \<and> never_closes rest \<longrightarrow> parse_response loads (pre @ rest) = Inr None)"
proof (intro conjI impI)
  assume a: "of_char CHR ''{'' \<notin> set pre \<and> balanced_span obj"
  then obtain cs where obj: "obj = of_char CHR ''{'' # cs"
    by (cases obj) (auto simp: balanced_span_def)
  from a have fb: "find_brace (pre @ obj @ post) = Some (length pre)"
    using find_brace_prefix [of pre "cs @ post"] by (simp add: obj)
  from a have sc: "scan (drop (length pre) (pre @ obj @ post)) (length pre) 0 = Some (length pre + (length obj - 1))"
    by (simp add: scan_object)
  have sl: "slice (pre @ obj @ post) (length pre) (length pre + (length obj - 1) + 1) = obj"
    by (simp add: slice_def obj)
  show "parse_response loads (pre @ obj @ post) =
        (case loads obj of Inl e \<Rightarrow> Inl e | Inr v \<Rightarrow> Inr (Some v))"
    by (simp only: parse_response_def fb sc sl option.case)
next
  assume "of_char CHR ''{'' \<notin> set text"
  then show "parse_response loads text = Inr None"
    by (simp add: parse_response_def find_brace_none)
next
  assume a: "of_char CHR ''{'' \<notin> set pre \<and> never_closes rest"
  then obtain cs where rest: "rest = of_char CHR ''{'' # cs"
    by (cases rest) (auto simp: never_closes_def)
  from a have fb: "find_brace (pre @ rest) = Some (length pre)"
    using find_brace_prefix [of pre cs] by (simp add: rest)
  from a have sc: "scan rest (length pre) 0 = None"
    by (simp add: scan_open)
  show "parse_response loads (pre @ rest) = Inr None"
    by (simp add: parse_response_def fb sc)
qed

theorem first_balanced_object_witness:
  "of_char CHR ''{'' \<notin> set (lit ''Sure: '') \<and> balanced_span (lit ''{a{b}c}'')
   \<and> parse_response (\<lambda>s. Inr (JStr s)) (lit ''Sure: {a{b}c} and {d}'') = Inr (Some (JStr (lit ''{a{b}c}'')))
   \<and> of_char CHR ''{'' \<notin> set (lit ''no object'')
   \<and> parse_response (\<lambda>s. Inr (JStr s)) (lit ''no object'') = Inr None
   \<and> never_closes (lit ''{a{b}c'')
   \<and> parse_response (\<lambda>s. Inr (JStr s)) (lit ''Sure: {a{b}c'') = Inr None"
proof -
  have b: "balanced_span (lit ''{a{b}c}'')"
    by (simp add: lit_def balanced_span_def atLeastLessThan_upt)
  have n: "never_closes (lit ''{a{b}c'')"
    by (simp add: lit_def never_closes_def atLeastAtMost_upt)
  have p: "of_char CHR ''{'' \<notin> set (lit ''Sure: '')" "of_char CHR ''{'' \<notin> set (lit ''no object'')"
    by (simp_all add: lit_def)
  have a: "lit ''Sure: '' @ lit ''{a{b}c}'' @ lit '' and {d}'' = lit ''Sure: {a{b}c} and {d}''"
    "lit ''Sure: '' @ lit ''{a{b}c'' = lit ''Sure: {a{b}c''"
    by (simp_all add: lit_def)
  from first_balanced_object [of "lit ''Sure: ''" "lit ''{a{b}c}''" "\<lambda>s. Inr (JStr s)"
      "lit '' and {d}''" "lit ''no object''" "lit ''{a{b}c''"] b n p
  show ?thesis by (simp add: a)
qed

section \<open>Properties of Load\<close>

subsection \<open>The statements one by one\<close>

lemma varchar_255_take: "varchar_255 s = Inr s' \<Longrightarrow> s' = take 255 s"
  by (auto simp: varchar_255_def split: if_splits)

lemma select_id_db: "select_id en fn db = (r, db') \<Longrightarrow> db' = db"
  by (auto simp: select_id_def split: if_splits)

lemma select_id_found:
  "select_id en fn db = (Inr (Some k), db') \<Longrightarrow>
   \<exists>r. find (\<lambda>r. filename r = fn) (documents (pending db)) = Some r \<and> doc_pk r = k"
  by (auto simp: select_id_def split: if_splits)

lemma select_id_absent:
  "select_id en fn db = (Inr None, db') \<Longrightarrow> rows_named fn (pending db) = []"
  by (auto simp: select_id_def rows_named_def find_None_iff filter_empty_conv split: if_splits)

lemma find_distinct_filter:
  "distinct (map f xs) \<Longrightarrow> find (\<lambda>r. f r = a) xs = Some r0 \<Longrightarrow> filter (\<lambda>r. f r = a) xs = [r0]"
proof (induction xs)
  case Nil
  then show ?case by simp
next
  case (Cons x xs)
  show ?case
  proof (cases "f x = a")
    case True
    with Cons.prems have "x = r0" by simp
    moreover from True Cons.prems have "a \<notin> f ` set xs" by auto
    then have "\<forall>y\<in>set xs. f y \<noteq> a" by blast
    then have "filter (\<lambda>r. f r = a) xs = []" by (simp add: filter_empty_conv)
    ultimately show ?thesis using True by simp
  next
    case False
    with Cons show ?thesis by simp
  qed
qed

lemma varchar_255_iff:
  "varchar_255 s = Inr s' \<longleftrightarrow>
     s' = take 255 s \<and> (length s \<le> 255 \<or> list_all (\<lambda>c. c = of_char CHR '' '') (drop 255 s))"
  by (auto simp: varchar_255_def)

lemma document_columns_iff:
  "document_columns di nm ds = Inr x \<longleftrightarrow>
     (\<exists>di' nm'. x = (di', nm', ds) \<and> varchar_255 di = Inr di' \<and> varchar_255 nm = Inr nm')"
  by (auto simp: document_columns_def split: sum.splits)

lemma update_document_effect:
  assumes "update_document en di nm ds k db = (Inr u, db')"
  shows "durable db' = durable db"
    and "line_item_rows (pending db') = line_item_rows (pending db)"
    and "\<exists>di' nm'. document_columns di nm ds = Inr (di', nm', ds)
           \<and> documents (pending db') =
               map (\<lambda>r. if doc_pk r = k
                         then r\<lparr>row_document_id := di', row_name := nm', row_description := ds\<rparr>
                         else r) (documents (pending db))"
  using assms
  by (auto simp: update_document_def document_columns_iff split: if_splits sum.splits)

lemma update_document_fail:
  "update_document en di nm ds k db = (Inl e, db') \<Longrightarrow> db' = db"
  by (auto simp: update_document_def split: if_splits sum.splits)

lemma delete_line_items_effect:
  assumes "delete_line_items en k db = (Inr u, db')"
  shows "durable db' = durable db"
    and "documents (pending db') = documents (pending db)"
    and "line_item_rows (pending db') = filter (\<lambda>i. doc_fk i \<noteq> k) (line_item_rows (pending db))"
  using assms by (auto simp: delete_line_items_def split: if_splits)

lemma delete_line_items_fail:
  "delete_line_items en k db = (Inl e, db') \<Longrightarrow> db' = db"
  by (auto simp: delete_line_items_def split: if_splits)

lemma insert_document_effect:
  assumes "insert_document en fn di nm ds db = (Inr k, db')"
  shows "durable db' = durable db"
    and "line_item_rows (pending db') = line_item_rows (pending db)"
    and "\<exists>di' nm'. document_columns di nm ds = Inr (di', nm', ds)
           \<and> documents (pending db') = documents (pending db) @
               [\<lparr>doc_pk = k, filename = take 255 fn, row_document_id = di', row_name = nm',
                 row_description = ds\<rparr>]"
    and "k \<notin> set (map doc_pk (documents (pending db)))"
    and "take 255 fn \<notin> set (map filename (documents (pending db)))"
    and "\<exists>fn'. varchar_255 fn = Inr fn'"
  using assms
  by (auto simp: insert_document_def Let_def document_columns_iff varchar_255_iff
      split: if_splits sum.splits)

lemma insert_document_fail:
  "insert_document en fn di nm ds db = (Inl e, db') \<Longrightarrow>
   durable db' = durable db \<and> pending db' = pending db"
  by (auto simp: insert_document_def Let_def split: if_splits sum.splits)

lemma insert_line_item_effect:
  assumes "insert_line_item en k it db = (Inr u, db')"
  shows "durable db' = durable db"
    and "documents (pending db') = documents (pending db)"
    and "\<exists>row. line_item_rows (pending db') = line_item_rows (pending db) @ [row]
           \<and> item_columns en it = Inr (row_values row) \<and> doc_fk row = k
           \<and> item_pk row \<notin> set (map item_pk (line_item_rows (pending db)))"
    and "k \<in> set (map doc_pk (documents (pending db)))"
  using assms
  by (auto simp: insert_line_item_def Let_def row_values_def split: if_splits sum.splits)

lemma insert_line_item_fail:
  "insert_line_item en k it db = (Inl e, db') \<Longrightarrow>
   durable db' = durable db \<and> pending db' = pending db"
  by (auto simp: insert_line_item_def Let_def split: if_splits sum.splits)

lemma insert_items_effect:
  "insert_items en k its db = (r, db') \<Longrightarrow>
   durable db' = durable db \<and> documents (pending db') = documents (pending db)
   \<and> (\<exists>new. line_item_rows (pending db') = line_item_rows (pending db) @ new
        \<and> (\<forall>i\<in>set new. doc_fk i = k)
        \<and> (new \<noteq> [] \<longrightarrow> k \<in> set (map doc_pk (documents (pending db))))
        \<and> distinct (map item_pk new)
        \<and> set (map item_pk new) \<inter> set (map item_pk (line_item_rows (pending db))) = {}
        \<and> ((\<exists>u. r = Inr u) \<longrightarrow>
             map (\<lambda>i. Inr (row_values i)) new = map (item_columns en) its))"
proof (induction its arbitrary: db)
  case Nil
  then show ?case by auto
next
  case (Cons it its)
  obtain r1 db1 where step: "insert_line_item en k it db = (r1, db1)"
    by (cases "insert_line_item en k it db")
  show ?case
  proof (cases r1)
    case (Inl e)
    with step Cons.prems have "r = Inl e" "db' = db1" by auto
    with insert_line_item_fail [of en k it db e db1] step Inl show ?thesis by auto
  next
    case (Inr u)
    with step Cons.prems have rest: "insert_items en k its db1 = (r, db')" by auto
    from step Inr have s: "insert_line_item en k it db = (Inr u, db1)" by simp
    from insert_line_item_effect(3) [OF s] obtain row where
      row: "line_item_rows (pending db1) = line_item_rows (pending db) @ [row]"
        "item_columns en it = Inr (row_values row)" "doc_fk row = k"
        "item_pk row \<notin> set (map item_pk (line_item_rows (pending db)))" by blast
    from Cons.IH [OF rest] obtain new where
      new: "durable db' = durable db1" "documents (pending db') = documents (pending db1)"
        "line_item_rows (pending db') = line_item_rows (pending db1) @ new"
        "\<forall>i\<in>set new. doc_fk i = k"
        "distinct (map item_pk new)"
        "set (map item_pk new) \<inter> set (map item_pk (line_item_rows (pending db1))) = {}"
        "(\<exists>u. r = Inr u) \<longrightarrow> map (\<lambda>i. Inr (row_values i)) new = map (item_columns en) its"
      by blast
    have "line_item_rows (pending db') = line_item_rows (pending db) @ (row # new)"
      using new(3) row(1) by simp
    moreover have "\<forall>i\<in>set (row # new). doc_fk i = k" using new(4) row(3) by simp
    moreover have "distinct (map item_pk (row # new))" using new(5,6) row(1) by auto
    moreover have "set (map item_pk (row # new)) \<inter> set (map item_pk (line_item_rows (pending db))) = {}"
      using new(6) row(1,4) by auto
    moreover have "(\<exists>u. r = Inr u) \<longrightarrow>
        map (\<lambda>i. Inr (row_values i)) (row # new) = map (item_columns en) (it # its)"
      using new(7) row(2) by simp
    moreover have "k \<in> set (map doc_pk (documents (pending db)))"
      using insert_line_item_effect(4) [OF s] .
    ultimately show ?thesis
      using new(1,2) insert_line_item_effect(1,2) [OF s]
      by (intro conjI exI [of _ "row # new"]) simp_all
  qed
qed

lemma upsert_cases:
  assumes "upsert en fn doc db = (r, db')"
  obtains (select_failed) e where "select_id en fn db = (Inl e, db)" "r = Inl e" "db' = db"
  | (update_failed) k e where "select_id en fn db = (Inr (Some k), db)"
      "update_document en (document_id doc) (name doc) (description doc) k db = (Inl e, db)"
      "r = Inl e" "db' = db"
  | (delete_failed) k u db2 e where "select_id en fn db = (Inr (Some k), db)"
      "update_document en (document_id doc) (name doc) (description doc) k db = (Inr u, db2)"
      "delete_line_items en k db2 = (Inl e, db2)" "r = Inl e" "db' = db2"
  | (updated) k u db2 u' db3 where "select_id en fn db = (Inr (Some k), db)"
      "update_document en (document_id doc) (name doc) (description doc) k db = (Inr u, db2)"
      "delete_line_items en k db2 = (Inr u', db3)"
      "insert_items en k (line_items doc) db3 = (r, db')"
  | (insert_failed) e where "select_id en fn db = (Inr None, db)"
      "insert_document en fn (document_id doc) (name doc) (description doc) db = (Inl e, db')"
      "r = Inl e"
  | (inserted) k db2 where "select_id en fn db = (Inr None, db)"
      "insert_document en fn (document_id doc) (name doc) (description doc) db = (Inr k, db2)"
      "insert_items en k (line_items doc) db2 = (r, db')"
proof -
  obtain r0 db0 where s: "select_id en fn db = (r0, db0)" by (cases "select_id en fn db")
  then have db0: "db0 = db" by (rule select_id_db)
  show ?thesis
  proof (cases r0)
    case (Inl e)
    with s db0 assms show ?thesis by (intro select_failed [of e]) (auto simp: upsert_def)
  next
    case (Inr existing)
    show ?thesis
    proof (cases existing)
      case None
      obtain r1 db1 where i: "insert_document en fn (document_id doc) (name doc) (description doc) db = (r1, db1)"
        by (cases "insert_document en fn (document_id doc) (name doc) (description doc) db")
      show ?thesis
      proof (cases r1)
        case (Inl e)
        with s db0 Inr None i assms show ?thesis
          by (intro insert_failed [of e]) (auto simp: upsert_def)
      next
        case r1: (Inr k)
        with s db0 Inr None i assms show ?thesis
          by (intro inserted [of k db1]) (auto simp: upsert_def)
      qed
    next
      case (Some k)
      obtain r1 db1 where u: "update_document en (document_id doc) (name doc) (description doc) k db = (r1, db1)"
        by (cases "update_document en (document_id doc) (name doc) (description doc) k db")
      show ?thesis
      proof (cases r1)
        case (Inl e)
        with u have "db1 = db" by (auto dest: update_document_fail)
        with s db0 Inr Some u Inl assms show ?thesis
          by (intro update_failed [of k e]) (auto simp: upsert_def)
      next
        case r1: (Inr u1)
        obtain r2 db2 where d: "delete_line_items en k db1 = (r2, db2)"
          by (cases "delete_line_items en k db1")
        show ?thesis
        proof (cases r2)
          case (Inl e)
          with d have "db2 = db1" by (auto dest: delete_line_items_fail)
          with s db0 Inr Some u r1 d Inl assms show ?thesis
            by (intro delete_failed [of k u1 db1 e]) (auto simp: upsert_def)
        next
          case r2: (Inr u2)
          with s db0 Inr Some u r1 d assms show ?thesis
            by (intro updated [of k u1 db1 u2 db2]) (auto simp: upsert_def)
        qed
      qed
    qed
  qed
qed

subsection \<open>The schema constraints are kept\<close>

lemma wf_tables_docs_cong:
  "map doc_pk (documents t') = map doc_pk (documents t) \<Longrightarrow>
   map filename (documents t') = map filename (documents t) \<Longrightarrow>
   line_item_rows t' = line_item_rows t \<Longrightarrow> wf_tables t' = wf_tables t"
  by (simp add: wf_tables_def)

lemma doc_keys_cong:
  "map doc_pk (documents t') = map doc_pk (documents t) \<Longrightarrow>
   map filename (documents t') = map filename (documents t) \<Longrightarrow> doc_keys t' = doc_keys t"
proof -
  assume a: "map doc_pk (documents t') = map doc_pk (documents t)"
    and b: "map filename (documents t') = map filename (documents t)"
  have "map (\<lambda>r. (doc_pk r, filename r)) xs = zip (map doc_pk xs) (map filename xs)" for xs :: "document_row list"
    by (induction xs) simp_all
  with a b show ?thesis by (simp add: doc_keys_def)
qed

lemma update_document_keys:
  assumes "update_document en di nm ds k db = (Inr u, db')"
  shows "map doc_pk (documents (pending db')) = map doc_pk (documents (pending db))"
    and "map filename (documents (pending db')) = map filename (documents (pending db))"
  using update_document_effect(3) [OF assms] by (auto simp: comp_def if_distrib cong: if_cong)

lemma wf_after_items:
  assumes "wf_tables t" "documents t' = documents t" "line_item_rows t' = line_item_rows t @ new"
    "\<forall>i\<in>set new. doc_fk i = k" "new \<noteq> [] \<longrightarrow> k \<in> set (map doc_pk (documents t))"
    "distinct (map item_pk new)"
    "set (map item_pk new) \<inter> set (map item_pk (line_item_rows t)) = {}"
  shows "wf_tables t'"
proof -
  have "\<forall>i\<in>set new. doc_fk i \<in> set (map doc_pk (documents t))"
    using assms(4,5) by (cases new) auto
  with assms show ?thesis unfolding wf_tables_def by auto
qed

lemma wf_after_delete:
  assumes "wf_tables t" "documents t' = documents t" "line_item_rows t' = filter P (line_item_rows t)"
  shows "wf_tables t'"
  using assms unfolding wf_tables_def by (auto simp: distinct_map_filter)

lemma wf_after_insert_doc:
  assumes "wf_tables t" "documents t' = documents t @ [row]" "line_item_rows t' = line_item_rows t"
    "doc_pk row \<notin> set (map doc_pk (documents t))" "filename row \<notin> set (map filename (documents t))"
  shows "wf_tables t'"
  using assms unfolding wf_tables_def by auto

lemma insert_items_invariant:
  assumes "wf_tables (pending db)" "insert_items en k its db = (r, db')"
  shows "durable db' = durable db" "wf_tables (pending db')"
    "documents (pending db') = documents (pending db)"
proof -
  from insert_items_effect [OF assms(2)] obtain new where
    e: "durable db' = durable db" "documents (pending db') = documents (pending db)"
      "line_item_rows (pending db') = line_item_rows (pending db) @ new"
      "\<forall>i\<in>set new. doc_fk i = k"
      "new \<noteq> [] \<longrightarrow> k \<in> set (map doc_pk (documents (pending db)))"
      "distinct (map item_pk new)"
      "set (map item_pk new) \<inter> set (map item_pk (line_item_rows (pending db))) = {}" by blast
  show "durable db' = durable db" "documents (pending db') = documents (pending db)" by (rule e)+
  show "wf_tables (pending db')" by (rule wf_after_items [OF assms(1) e(2-7)])
qed

lemma upsert_invariant:
  assumes wf: "wf_tables (pending db)" and up: "upsert en fn doc db = (r, db')"
  shows "durable db' = durable db \<and> wf_tables (pending db')
         \<and> doc_keys (pending db) \<subseteq> doc_keys (pending db')"
  using up
proof (cases rule: upsert_cases)
  case (select_failed e)
  with wf show ?thesis by simp
next
  case (update_failed k e)
  with wf show ?thesis by simp
next
  case (delete_failed k u db2 e)
  note upd = update_document_effect [OF delete_failed(2)] update_document_keys [OF delete_failed(2)]
  have "wf_tables (pending db2)" using wf wf_tables_docs_cong [OF upd(4,5,2)] by simp
  moreover have "doc_keys (pending db2) = doc_keys (pending db)" by (rule doc_keys_cong [OF upd(4,5)])
  ultimately show ?thesis using upd(1) delete_failed(5) by simp
next
  case (updated k u db2 u' db3)
  note upd = update_document_effect [OF updated(2)] update_document_keys [OF updated(2)]
  note del = delete_line_items_effect [OF updated(3)]
  have wf2: "wf_tables (pending db2)" using wf wf_tables_docs_cong [OF upd(4,5,2)] by simp
  have k2: "doc_keys (pending db2) = doc_keys (pending db)" by (rule doc_keys_cong [OF upd(4,5)])
  have wf3: "wf_tables (pending db3)" by (rule wf_after_delete [OF wf2 del(2,3)])
  have k3: "doc_keys (pending db3) = doc_keys (pending db2)" using del(2) by (simp add: doc_keys_def)
  note ins = insert_items_invariant [OF wf3 updated(4)]
  have "doc_keys (pending db') = doc_keys (pending db3)" using ins(3) by (simp add: doc_keys_def)
  with ins upd(1) del(1) k2 k3 show ?thesis by simp
next
  case (insert_failed e)
  from insert_document_fail [OF insert_failed(2)] wf show ?thesis by simp
next
  case (inserted k db2)
  note ind = insert_document_effect [OF inserted(2)]
  from ind(3) obtain row where row: "documents (pending db2) = documents (pending db) @ [row]"
    "doc_pk row = k" "filename row = take 255 fn" by auto
  have wf2: "wf_tables (pending db2)"
    by (rule wf_after_insert_doc [OF wf row(1) ind(2)]) (use ind(4,5) row(2,3) in simp_all)
  have k2: "doc_keys (pending db) \<subseteq> doc_keys (pending db2)" using row(1) by (auto simp: doc_keys_def)
  note ins = insert_items_invariant [OF wf2 inserted(3)]
  have "doc_keys (pending db') = doc_keys (pending db2)" using ins(3) by (simp add: doc_keys_def)
  with ins ind(1) k2 show ?thesis by simp
qed

lemma load_loop_invariant:
  "wf_tables (pending db) \<Longrightarrow> load_loop en batch db = (r, db') \<Longrightarrow>
   durable db' = durable db \<and> wf_tables (pending db')
   \<and> doc_keys (pending db) \<subseteq> doc_keys (pending db')"
proof (induction batch arbitrary: db)
  case Nil
  then show ?case by simp
next
  case (Cons p batch)
  obtain fn doc where p: "p = (fn, doc)" by (cases p)
  obtain r1 db1 where up: "upsert en fn doc db = (r1, db1)" by (cases "upsert en fn doc db")
  note inv = upsert_invariant [OF Cons.prems(1) up]
  show ?case
  proof (cases r1)
    case (Inl e)
    with Cons.prems(2) p up have "db' = db1" by simp
    with inv show ?thesis by simp
  next
    case (Inr u)
    with Cons.prems(2) p up have "load_loop en batch db1 = (r, db')" by simp
    from Cons.IH [OF _ this] inv show ?thesis by auto
  qed
qed

lemma doc_keys_names:
  "doc_keys t \<subseteq> doc_keys t' \<Longrightarrow> set (map filename (documents t)) \<subseteq> set (map filename (documents t'))"
  by (force simp: doc_keys_def)

subsection \<open>A stored name is written through its one row\<close>

lemma filter_fk_new:
  "\<forall>i\<in>set new. doc_fk i = k \<Longrightarrow> filter (\<lambda>i. doc_fk i = k) new = new"
  "\<forall>i\<in>set new. doc_fk i = k \<Longrightarrow> j \<noteq> k \<Longrightarrow> filter (\<lambda>i. doc_fk i = j) new = []"
  by (auto simp: filter_empty_conv)

lemma rows_named_member:
  assumes "wf_tables t" "r \<in> set (documents t)"
  shows "rows_named (filename r) t = [r]"
proof -
  from assms(1) have d: "distinct (map filename (documents t))" by (simp add: wf_tables_def)
  have "distinct (map f xs) \<Longrightarrow> r \<in> set xs \<Longrightarrow> filter (\<lambda>x. f x = f r) xs = [r]"
    for f :: "document_row \<Rightarrow> pystr" and xs
  proof (induction xs)
    case Nil
    then show ?case by simp
  next
    case (Cons x xs)
    show ?case
    proof (cases "x = r")
      case True
      with Cons.prems have "f r \<notin> f ` set xs" by simp
      then have "\<forall>y\<in>set xs. f y \<noteq> f r" by (metis imageI)
      then have "filter (\<lambda>x. f x = f r) xs = []" by (simp add: filter_empty_conv)
      with True show ?thesis by simp
    next
      case False
      with Cons.prems have "r \<in> set xs" by simp
      with Cons.prems have "f x \<noteq> f r" by auto
      with Cons \<open>r \<in> set xs\<close> show ?thesis by simp
    qed
  qed
  from this [OF d assms(2)] show ?thesis by (simp add: rows_named_def)
qed

lemma upsert_holds:
  assumes wf: "wf_tables (pending db)" and up: "upsert en fn doc db = (Inr u, db')"
    and known: "length fn \<le> 255 \<or> fn \<in> set (map filename (documents (pending db)))
      \<or> take 255 fn \<in> set (map filename (documents (pending db)))"
  shows "holds_document en fn doc (pending db')"
  using up
proof (cases rule: upsert_cases)
  case (updated k u1 db2 u2 db3)
  note upd = update_document_effect [OF updated(2)]
  from upd(3) obtain di' nm' where
    cols: "document_columns (document_id doc) (name doc) (description doc) = Inr (di', nm', description doc)"
    and docs2: "documents (pending db2) =
       map (\<lambda>r. if doc_pk r = k
                 then r\<lparr>row_document_id := di', row_name := nm', row_description := description doc\<rparr>
                 else r) (documents (pending db))" by blast
  let ?upd = "\<lambda>r. if doc_pk r = k
                   then r\<lparr>row_document_id := di', row_name := nm', row_description := description doc\<rparr>
                   else r"
  note del = delete_line_items_effect [OF updated(3)]
  from insert_items_effect [OF updated(4)] obtain new where
    ins: "documents (pending db') = documents (pending db3)"
      "line_item_rows (pending db') = line_item_rows (pending db3) @ new"
      "\<forall>i\<in>set new. doc_fk i = k"
      "map (\<lambda>i. Inr (row_values i)) new = map (item_columns en) (line_items doc)" by blast
  from select_id_found [OF updated(1)] obtain r0 where
    r0: "find (\<lambda>r. filename r = fn) (documents (pending db)) = Some r0" "doc_pk r0 = k" by blast
  from wf have "distinct (map filename (documents (pending db)))" by (simp add: wf_tables_def)
  from find_distinct_filter [OF this r0(1)]
  have one: "filter (\<lambda>r. filename r = fn) (documents (pending db)) = [r0]" .
  have fn_upd: "(\<lambda>r. filename (?upd r) = fn) = (\<lambda>r. filename r = fn)" by auto
  have "rows_named fn (pending db') = map ?upd (filter (\<lambda>r. filename r = fn) (documents (pending db)))"
    unfolding rows_named_def ins(1) del(2) docs2 filter_map comp_def fn_upd ..
  with one r0(2) have rows: "rows_named fn (pending db') =
      [r0\<lparr>row_document_id := di', row_name := nm', row_description := description doc\<rparr>]"
    by simp
  have "item_rows_of k (pending db') = new"
    unfolding item_rows_of_def ins(2) del(3) using ins(3) by (simp add: filter_fk_new)
  with rows r0(2) cols ins(4) show ?thesis by (simp add: holds_document_def)
next
  case (inserted k db2)
  note ind = insert_document_effect [OF inserted(2)]
  from ind(3) obtain di' nm' where
    cols: "document_columns (document_id doc) (name doc) (description doc) = Inr (di', nm', description doc)"
    and docs2: "documents (pending db2) = documents (pending db) @
       [\<lparr>doc_pk = k, filename = take 255 fn, row_document_id = di', row_name = nm',
         row_description = description doc\<rparr>]" by blast
  from insert_items_effect [OF inserted(3)] obtain new where
    ins: "documents (pending db') = documents (pending db2)"
      "line_item_rows (pending db') = line_item_rows (pending db2) @ new"
      "\<forall>i\<in>set new. doc_fk i = k"
      "map (\<lambda>i. Inr (row_values i)) new = map (item_columns en) (line_items doc)" by blast
  from select_id_absent [OF inserted(1)] have none: "rows_named fn (pending db) = []" .
  then have "fn \<notin> set (map filename (documents (pending db)))"
    by (auto simp: rows_named_def filter_empty_conv)
  with known ind(5) have fits: "take 255 fn = fn" by auto
  from none have rows: "rows_named fn (pending db') =
      [\<lparr>doc_pk = k, filename = fn, row_document_id = di', row_name = nm',
        row_description = description doc\<rparr>]"
    unfolding rows_named_def ins(1) docs2 fits by simp
  from wf ind(4) have "\<forall>i\<in>set (line_item_rows (pending db)). doc_fk i \<noteq> k"
    unfolding wf_tables_def by auto
  then have "filter (\<lambda>i. doc_fk i = k) (line_item_rows (pending db)) = []"
    by (simp add: filter_empty_conv)
  then have "item_rows_of k (pending db') = new"
    unfolding item_rows_of_def ins(2) ind(2) using ins(3) by (simp add: filter_fk_new)
  with rows cols ins(4) show ?thesis by (simp add: holds_document_def)
qed simp_all

lemma upsert_names:
  assumes up: "upsert en fn doc db = (Inr u, db')"
  shows "fn \<in> set (map filename (documents (pending db')))
         \<or> take 255 fn \<in> set (map filename (documents (pending db')))"
  using up
proof (cases rule: upsert_cases)
  case (updated k u1 db2 u2 db3)
  from select_id_found [OF updated(1)] have "fn \<in> set (map filename (documents (pending db)))"
    by (auto simp: find_Some_iff)
  moreover have "map filename (documents (pending db2)) = map filename (documents (pending db))"
    by (rule update_document_keys(2) [OF updated(2)])
  moreover have "documents (pending db3) = documents (pending db2)"
    by (rule delete_line_items_effect(2) [OF updated(3)])
  moreover from insert_items_effect [OF updated(4)]
  have "documents (pending db') = documents (pending db3)" by blast
  ultimately show ?thesis by simp
next
  case (inserted k db2)
  from insert_document_effect(3) [OF inserted(2)]
  have "take 255 fn \<in> set (map filename (documents (pending db2)))" by auto
  moreover from insert_items_effect [OF inserted(3)]
  have "documents (pending db') = documents (pending db2)" by blast
  ultimately show ?thesis by simp
qed simp_all

subsection \<open>Rows of other names are not touched\<close>

lemma insert_items_frame:
  assumes "insert_items en k its db = (r, db')" "j \<noteq> k"
  shows "item_rows_of j (pending db') = item_rows_of j (pending db)"
proof -
  from insert_items_effect [OF assms(1)] obtain new where
    ins: "line_item_rows (pending db') = line_item_rows (pending db) @ new"
      "\<forall>i\<in>set new. doc_fk i = k" by blast
  show ?thesis unfolding item_rows_of_def ins(1) using ins(2) assms(2) by (simp add: filter_fk_new)
qed

lemma update_document_frame:
  assumes wf: "wf_tables (pending db)"
    and sel: "select_id en fn' db = (Inr (Some k), db)"
    and upd: "update_document en di nm ds k db = (Inr u, db2)"
    and row: "row \<in> set (documents (pending db))" "filename row \<noteq> fn'"
  shows "doc_pk row \<noteq> k" "row \<in> set (documents (pending db2))"
    "item_rows_of j (pending db2) = item_rows_of j (pending db)"
proof -
  note e = update_document_effect [OF upd]
  from select_id_found [OF sel] obtain r0 where
    r0: "find (\<lambda>r. filename r = fn') (documents (pending db)) = Some r0" "doc_pk r0 = k" by blast
  then have r0': "r0 \<in> set (documents (pending db))" "filename r0 = fn'"
    by (auto simp: find_Some_iff)
  from wf have inj: "inj_on doc_pk (set (documents (pending db)))"
    by (simp add: wf_tables_def distinct_map)
  from r0' r0(2) row inj show other: "doc_pk row \<noteq> k" by (auto dest: inj_onD)
  from e(3) obtain di' nm' where docs2: "documents (pending db2) =
      map (\<lambda>r. if doc_pk r = k
                then r\<lparr>row_document_id := di', row_name := nm', row_description := ds\<rparr>
                else r) (documents (pending db))" by blast
  from other row(1) show "row \<in> set (documents (pending db2))"
    unfolding docs2 set_map by (intro image_eqI [of _ _ row]) simp_all
  show "item_rows_of j (pending db2) = item_rows_of j (pending db)"
    by (simp add: item_rows_of_def e(2))
qed

lemma upsert_frame:
  assumes wf: "wf_tables (pending db)" and up: "upsert en fn' doc' db = (r, db')"
    and row: "row \<in> set (documents (pending db))" "filename row \<noteq> fn'"
  shows "row \<in> set (documents (pending db'))
         \<and> item_rows_of (doc_pk row) (pending db') = item_rows_of (doc_pk row) (pending db)"
  using up
proof (cases rule: upsert_cases)
  case (select_failed e)
  with row show ?thesis by simp
next
  case (update_failed k e)
  with row show ?thesis by simp
next
  case (delete_failed k u db2 e)
  from update_document_frame(2,3) [OF wf delete_failed(1,2) row] delete_failed(5)
  show ?thesis by simp
next
  case (updated k u db2 u' db3)
  note f = update_document_frame [OF wf updated(1,2) row]
  note del = delete_line_items_effect [OF updated(3)]
  have "filter (\<lambda>i. doc_fk i = doc_pk row) (filter (\<lambda>i. doc_fk i \<noteq> k) xs)
        = filter (\<lambda>i. doc_fk i = doc_pk row) xs" for xs :: "line_item_row list"
    using f(1) by (induction xs) auto
  then have "item_rows_of (doc_pk row) (pending db3) = item_rows_of (doc_pk row) (pending db2)"
    by (simp add: item_rows_of_def del(3))
  with f(3) [of "doc_pk row"] insert_items_frame [OF updated(4) f(1)]
  have "item_rows_of (doc_pk row) (pending db') = item_rows_of (doc_pk row) (pending db)" by simp
  moreover from insert_items_effect [OF updated(4)]
  have "documents (pending db') = documents (pending db3)" by blast
  ultimately show ?thesis using f(2) del(2) by simp
next
  case (insert_failed e)
  from insert_document_fail [OF insert_failed(2)] row show ?thesis by simp
next
  case (inserted k db2)
  note ind = insert_document_effect [OF inserted(2)]
  from ind(4) row(1) have nk: "doc_pk row \<noteq> k" by auto
  from ind(3) row(1) have "row \<in> set (documents (pending db2))" by auto
  moreover from insert_items_effect [OF inserted(3)]
  have "documents (pending db') = documents (pending db2)" by blast
  moreover have "item_rows_of (doc_pk row) (pending db2) = item_rows_of (doc_pk row) (pending db)"
    by (simp add: item_rows_of_def ind(2))
  ultimately show ?thesis using insert_items_frame [OF inserted(3) nk] by simp
qed

lemma load_loop_frame:
  "wf_tables (pending db) \<Longrightarrow> load_loop en batch db = (r, db') \<Longrightarrow>
   row \<in> set (documents (pending db)) \<Longrightarrow> filename row \<notin> fst ` set batch \<Longrightarrow>
   row \<in> set (documents (pending db'))
   \<and> item_rows_of (doc_pk row) (pending db') = item_rows_of (doc_pk row) (pending db)"
proof (induction batch arbitrary: db)
  case Nil
  then show ?case by simp
next
  case (Cons p batch)
  obtain fn' doc' where p: "p = (fn', doc')" by (cases p)
  obtain r1 db1 where up: "upsert en fn' doc' db = (r1, db1)" by (cases "upsert en fn' doc' db")
  from Cons.prems(4) p have ne: "filename row \<noteq> fn'" and rest: "filename row \<notin> fst ` set batch"
    by auto
  note h1 = upsert_frame [OF Cons.prems(1) up Cons.prems(3) ne]
  from upsert_invariant [OF Cons.prems(1) up] have wf1: "wf_tables (pending db1)" by simp
  show ?case
  proof (cases r1)
    case (Inl e)
    with Cons.prems(2) p up h1 show ?thesis by simp
  next
    case (Inr u)
    with Cons.prems(2) p up have "load_loop en batch db1 = (r, db')" by simp
    from Cons.IH [OF wf1 this _ rest] h1 show ?thesis by simp
  qed
qed

lemma holds_document_frame:
  assumes h: "holds_document en fn doc t" and wf': "wf_tables t'"
    and frame: "\<And>row. row \<in> set (documents t) \<Longrightarrow> filename row = fn \<Longrightarrow>
       row \<in> set (documents t') \<and> item_rows_of (doc_pk row) t' = item_rows_of (doc_pk row) t"
  shows "holds_document en fn doc t'"
proof -
  from h obtain r0 where r0: "rows_named fn t = [r0]"
    by (auto simp: holds_document_def split: list.splits)
  then have "r0 \<in> set (rows_named fn t)" by simp
  then have m: "r0 \<in> set (documents t)" "filename r0 = fn" by (auto simp: rows_named_def)
  from frame [OF m] have f: "r0 \<in> set (documents t')"
    "item_rows_of (doc_pk r0) t' = item_rows_of (doc_pk r0) t" by simp_all
  from rows_named_member [OF wf' f(1)] m(2) have "rows_named fn t' = [r0]" by simp
  with h r0 f(2) show ?thesis by (simp add: holds_document_def)
qed

lemma load_loop_keeps:
  assumes wf: "wf_tables (pending db)" and l: "load_loop en batch db = (r, db')"
    and nin: "fn \<notin> fst ` set batch" and h: "holds_document en fn doc (pending db)"
  shows "holds_document en fn doc (pending db')"
proof (rule holds_document_frame [OF h])
  from load_loop_invariant [OF wf l] show "wf_tables (pending db')" by simp
next
  fix row assume "row \<in> set (documents (pending db))" "filename row = fn"
  with load_loop_frame [OF wf l, of row] nin
  show "row \<in> set (documents (pending db'))
        \<and> item_rows_of (doc_pk row) (pending db') = item_rows_of (doc_pk row) (pending db)" by simp
qed

subsection \<open>A whole batch\<close>

lemma upsert_durable:
  assumes up: "upsert en fn doc db = (r, db')"
  shows "durable db' = durable db"
  using up
proof (cases rule: upsert_cases)
  case (delete_failed k u db2 e)
  with update_document_effect(1) [OF delete_failed(2)] show ?thesis by simp
next
  case (updated k u db2 u' db3)
  with update_document_effect(1) [OF updated(2)] delete_line_items_effect(1) [OF updated(3)]
    insert_items_effect [OF updated(4)] show ?thesis by simp
next
  case (insert_failed e)
  with insert_document_fail [OF insert_failed(2)] show ?thesis by simp
next
  case (inserted k db2)
  with insert_document_effect(1) [OF inserted(2)] insert_items_effect [OF inserted(3)]
  show ?thesis by simp
qed simp_all

lemma load_loop_durable: "load_loop en batch db = (r, db') \<Longrightarrow> durable db' = durable db"
proof (induction batch arbitrary: db)
  case Nil
  then show ?case by simp
next
  case (Cons p batch)
  obtain fn doc where p: "p = (fn, doc)" by (cases p)
  obtain r1 db1 where up: "upsert en fn doc db = (r1, db1)" by (cases "upsert en fn doc db")
  from Cons.prems p up Cons.IH [of db1] upsert_durable [OF up] show ?case
    by (cases r1) auto
qed

lemma load_loop_append:
  "load_loop en (b1 @ b2) db =
     (case load_loop en b1 db of (Inl e, db') \<Rightarrow> (Inl e, db') | (Inr u, db') \<Rightarrow> load_loop en b2 db')"
  by (induction b1 arbitrary: db) (auto split: prod.splits sum.splits)

lemma load_loop_names:
  "wf_tables (pending db) \<Longrightarrow> load_loop en batch db = (Inr u, db') \<Longrightarrow> (fn, doc) \<in> set batch \<Longrightarrow>
   fn \<in> set (map filename (documents (pending db')))
   \<or> take 255 fn \<in> set (map filename (documents (pending db')))"
proof (induction batch arbitrary: db)
  case Nil
  then show ?case by simp
next
  case (Cons p batch)
  obtain fn' doc' where p: "p = (fn', doc')" by (cases p)
  obtain r1 db1 where up: "upsert en fn' doc' db = (r1, db1)" by (cases "upsert en fn' doc' db")
  from Cons.prems(2) p up obtain u1 where r1: "r1 = Inr u1"
    and rest: "load_loop en batch db1 = (Inr u, db')" by (cases r1) auto
  from upsert_invariant [OF Cons.prems(1) up] have wf1: "wf_tables (pending db1)" by simp
  show ?case
  proof (cases "(fn, doc) = p")
    case True
    with p up r1 have "upsert en fn doc db = (Inr u1, db1)" by simp
    from upsert_names [OF this] load_loop_invariant [OF wf1 rest, THEN conjunct2, THEN conjunct2]
    show ?thesis using doc_keys_names by blast
  next
    case False
    with Cons.prems(3) have "(fn, doc) \<in> set batch" by simp
    from Cons.IH [OF wf1 rest this] show ?thesis .
  qed
qed

lemma load_loop_holds:
  "wf_tables (pending db) \<Longrightarrow> load_loop en batch db = (Inr u, db') \<Longrightarrow> distinct (map fst batch) \<Longrightarrow>
   (fn, doc) \<in> set batch \<Longrightarrow>
   length fn \<le> 255 \<or> fn \<in> set (map filename (documents (pending db)))
     \<or> take 255 fn \<in> set (map filename (documents (pending db))) \<Longrightarrow>
   holds_document en fn doc (pending db')"
proof (induction batch arbitrary: db)
  case Nil
  then show ?case by simp
next
  case (Cons p batch)
  obtain fn' doc' where p: "p = (fn', doc')" by (cases p)
  obtain r1 db1 where up: "upsert en fn' doc' db = (r1, db1)" by (cases "upsert en fn' doc' db")
  from Cons.prems(2) p up obtain u1 where r1: "r1 = Inr u1"
    and rest: "load_loop en batch db1 = (Inr u, db')" by (cases r1) auto
  note inv = upsert_invariant [OF Cons.prems(1) up]
  then have wf1: "wf_tables (pending db1)" by simp
  show ?case
  proof (cases "(fn, doc) = p")
    case True
    with p up r1 have up': "upsert en fn doc db = (Inr u1, db1)" by simp
    have "holds_document en fn doc (pending db1)"
      by (rule upsert_holds [OF Cons.prems(1) up' Cons.prems(5)])
    moreover from Cons.prems(3) True have "fn \<notin> fst ` set batch" by force
    ultimately show ?thesis by (rule load_loop_keeps [OF wf1 rest, rotated])
  next
    case False
    with Cons.prems(4) have "(fn, doc) \<in> set batch" by simp
    moreover from Cons.prems(3) have "distinct (map fst batch)" by simp
    moreover from Cons.prems(5) inv doc_keys_names [of "pending db" "pending db1"]
    have "length fn \<le> 255 \<or> fn \<in> set (map filename (documents (pending db1)))
          \<or> take 255 fn \<in> set (map filename (documents (pending db1)))" by blast
    ultimately show ?thesis using Cons.IH [OF wf1 rest] by blast
  qed
qed

lemma load_result:
  assumes "load en batch db = (r, db')"
  shows "(\<exists>e. r = Inl e \<and> durable db' = durable db)
         \<or> (r = Inr (length batch)
            \<and> (\<exists>db''. load_loop en batch db = (Inr (), db'') \<and> db' = db''\<lparr>durable := pending db''\<rparr>))"
proof -
  obtain r1 db1 where l: "load_loop en batch db = (r1, db1)" by (cases "load_loop en batch db")
  note d = load_loop_durable [OF l]
  show ?thesis
  proof (cases r1)
    case (Inl e)
    with l assms d show ?thesis by (auto simp: load_def)
  next
    case (Inr u)
    with l assms d show ?thesis
      by (auto simp: load_def commit_def split: if_splits)
  qed
qed

lemma Load_init_effect:
  "Load_init en db = (r, db') \<Longrightarrow> durable db' = durable db \<and> pending db' = durable db"
  by (auto simp: Load_init_def create_tables_def connect_def split: if_splits)

lemma run_load_result:
  assumes "run_load en batch db = (r, db')"
  shows "pending db' = durable db'"
    and "(\<exists>e. r = Inl e \<and> durable db' = durable db)
         \<or> (r = Inr (length batch)
            \<and> (\<exists>d0 d1. durable d0 = durable db \<and> pending d0 = durable db
                  \<and> load_loop en batch d0 = (Inr (), d1) \<and> durable db' = pending d1))"
proof -
  obtain r0 d0 where i: "Load_init en db = (r0, d0)" by (cases "Load_init en db")
  note ie = Load_init_effect [OF i]
  show "pending db' = durable db'"
    using assms i by (cases r0) (auto simp: run_load_def close_def split: prod.splits)
  show "(\<exists>e. r = Inl e \<and> durable db' = durable db)
         \<or> (r = Inr (length batch)
            \<and> (\<exists>d0 d1. durable d0 = durable db \<and> pending d0 = durable db
                  \<and> load_loop en batch d0 = (Inr (), d1) \<and> durable db' = pending d1))"
  proof (cases r0)
    case (Inl e)
    with assms i ie show ?thesis by (auto simp: run_load_def close_def)
  next
    case (Inr u)
    obtain r1 d1 where l: "load en batch d0 = (r1, d1)" by (cases "load en batch d0")
    with assms i Inr have r: "r = r1" and db': "db' = close d1" by (auto simp: run_load_def)
    from load_result [OF l] show ?thesis
    proof
      assume "\<exists>e. r1 = Inl e \<and> durable d1 = durable d0"
      with r db' ie show ?thesis by (auto simp: close_def)
    next
      assume "r1 = Inr (length batch)
            \<and> (\<exists>db''. load_loop en batch d0 = (Inr (), db'') \<and> d1 = db''\<lparr>durable := pending db''\<rparr>)"
      then obtain d2 where "r1 = Inr (length batch)" "load_loop en batch d0 = (Inr (), d2)"
        "d1 = d2\<lparr>durable := pending d2\<rparr>" by blast
      with r db' ie show ?thesis by (auto simp: close_def)
    qed
  qed
qed

lemma run_load_invariant:
  assumes "wf_tables (durable db)" "run_load en batch db = (r, db')"
  shows "wf_tables (durable db') \<and> doc_keys (durable db) \<subseteq> doc_keys (durable db')"
  using run_load_result(2) [OF assms(2)]
proof
  assume "\<exists>e. r = Inl e \<and> durable db' = durable db"
  with assms(1) show ?thesis by auto
next
  assume "r = Inr (length batch)
            \<and> (\<exists>d0 d1. durable d0 = durable db \<and> pending d0 = durable db
                  \<and> load_loop en batch d0 = (Inr (), d1) \<and> durable db' = pending d1)"
  then obtain d0 d1 where d: "pending d0 = durable db" "load_loop en batch d0 = (Inr (), d1)"
    "durable db' = pending d1" by blast
  from assms(1) d(1) have "wf_tables (pending d0)" by simp
  from load_loop_invariant [OF this d(2)] d(1,3) show ?thesis by simp
qed

lemma run_load_frame:
  assumes "wf_tables (durable db)" "run_load en batch db = (r, db')"
    "row \<in> set (documents (durable db))" "filename row \<notin> fst ` set batch"
  shows "row \<in> set (documents (durable db'))
         \<and> item_rows_of (doc_pk row) (durable db') = item_rows_of (doc_pk row) (durable db)"
  using run_load_result(2) [OF assms(2)]
proof
  assume "\<exists>e. r = Inl e \<and> durable db' = durable db"
  with assms(3) show ?thesis by auto
next
  assume "r = Inr (length batch)
            \<and> (\<exists>d0 d1. durable d0 = durable db \<and> pending d0 = durable db
                  \<and> load_loop en batch d0 = (Inr (), d1) \<and> durable db' = pending d1)"
  then obtain d0 d1 where d: "pending d0 = durable db" "load_loop en batch d0 = (Inr (), d1)"
    "durable db' = pending d1" by blast
  from assms(1,3) d(1) have "wf_tables (pending d0)" "row \<in> set (documents (pending d0))" by simp_all
  from load_loop_frame [OF this(1) d(2) this(2) assms(4)] d(1,3) show ?thesis by simp
qed

lemma run_load_names:
  assumes "wf_tables (durable db)" "run_load en batch db = (Inr n, db')" "(fn, doc) \<in> set batch"
  shows "fn \<in> set (map filename (documents (durable db')))
         \<or> take 255 fn \<in> set (map filename (documents (durable db')))"
  using run_load_result(2) [OF assms(2)]
proof
  assume "\<exists>e. Inr n = Inl e \<and> durable db' = durable db"
  then show ?thesis by simp
next
  assume "Inr n = Inr (length batch)
            \<and> (\<exists>d0 d1. durable d0 = durable db \<and> pending d0 = durable db
                  \<and> load_loop en batch d0 = (Inr (), d1) \<and> durable db' = pending d1)"
  then obtain d0 d1 where d: "pending d0 = durable db" "load_loop en batch d0 = (Inr (), d1)"
    "durable db' = pending d1" by blast
  from assms(1) d(1) have "wf_tables (pending d0)" by simp
  from load_loop_names [OF this d(2) assms(3)] d(3) show ?thesis by simp
qed

lemma run_load_holds:
  assumes "wf_tables (durable db)" "run_load en batch db = (Inr n, db')"
    "distinct (map fst batch)" "(fn, doc) \<in> set batch"
    "length fn \<le> 255 \<or> fn \<in> set (map filename (documents (durable db)))
     \<or> take 255 fn \<in> set (map filename (documents (durable db)))"
  shows "holds_document en fn doc (durable db')"
  using run_load_result(2) [OF assms(2)]
proof
  assume "\<exists>e. Inr n = Inl e \<and> durable db' = durable db"
  then show ?thesis by simp
next
  assume "Inr n = Inr (length batch)
            \<and> (\<exists>d0 d1. durable d0 = durable db \<and> pending d0 = durable db
                  \<and> load_loop en batch d0 = (Inr (), d1) \<and> durable db' = pending d1)"
  then obtain d0 d1 where d: "pending d0 = durable db" "load_loop en batch d0 = (Inr (), d1)"
    "durable db' = pending d1" by blast
  from assms(1) d(1) have "wf_tables (pending d0)" by simp
  from load_loop_holds [OF this d(2) assms(3,4)] assms(5) d(1,3) show ?thesis by simp
qed

subsection \<open>What the columns keep unchanged\<close>

lemma varchar_255_short: "length s \<le> 255 \<Longrightarrow> varchar_255 s = Inr s"
  by (simp add: varchar_255_def)

lemma floor_rat_numeral:
  "\<lfloor>numeral a / numeral b :: rat\<rfloor> = numeral a div numeral b"
  "\<lfloor>1 / numeral b :: rat\<rfloor> = 1 div numeral b"
  using floor_divide_of_int_eq [of "numeral a" "numeral b", where ?'a = rat]
    floor_divide_of_int_eq [of 1 "numeral b", where ?'a = rat] by simp_all

lemma round2_exact:
  assumes "of_int \<lfloor>r * 100\<rfloor> = r * 100"
  shows "round2 r = r"
proof -
  have up: "\<lfloor>x + 1 / 2\<rfloor> = \<lfloor>x\<rfloor>" if "of_int \<lfloor>x\<rfloor> = x" for x :: rat
  proof -
    from that obtain n where "x = of_int n" by metis
    then show ?thesis by (simp add: floor_rat_numeral)
  qed
  from assms obtain n where n: "r * 100 = of_int n" by metis
  then have "- r * 100 = of_int (- n)" by simp
  then have b: "of_int \<lfloor>- r * 100\<rfloor> = - r * 100" by (metis floor_of_int)
  show ?thesis
  proof (cases "0 \<le> r")
    case True
    with up [OF assms] assms show ?thesis by (simp add: round2_def)
  next
    case False
    then have "round2 r = - (of_int \<lfloor>- r * 100 + 1 / 2\<rfloor> / 100)" by (simp add: round2_def)
    also have "\<dots> = - (of_int \<lfloor>- r * 100\<rfloor> / 100)" by (simp only: up [OF b])
    also have "\<dots> = - (- r * 100 / 100)" by (simp only: b)
    also have "\<dots> = r" by simp
    finally show ?thesis .
  qed
qed

lemma decimal_10_2_exact:
  assumes "of_int \<lfloor>r * 100\<rfloor> = r * 100" "\<bar>r\<bar> < 10 ^ 8"
  shows "decimal_10_2 en (Finite r) = Inr (Num r)"
proof -
  from assms(1) obtain n where n: "r * 100 = of_int n" by metis
  then have "r * 10 ^ 6 = of_int (n * 10 ^ 4)" by simp
  then have "of_int \<lfloor>r * 10 ^ 6\<rfloor> = r * 10 ^ 6" by (metis floor_of_int)
  with assms(2) have "float_literal en r = r" by (simp add: float_literal_def)
  with round2_exact [OF assms(1)] assms(2) show ?thesis by (simp add: decimal_10_2_def)
qed

subsection \<open>Runs on the example data\<close>

lemmas load_defs = run_load_def Load_init_def create_tables_def connect_def close_def load_def
  commit_def upsert_def select_id_def update_document_def delete_line_items_def
  insert_document_def insert_line_item_def Let_def document_columns_def item_columns_def
  varchar_255_def decimal_10_2_def float_literal_def round2_def floor_rat_numeral lit_def

lemma run_v1: "run_load accepting [(lit ''000.jpg'', doc_v1)] empty_db = (Inr 1, db_v1)"
  by (simp add: load_defs accepting_def empty_db_def empty_tables_def doc_v1_def widget_def
      tables_v1_def db_v1_def del: set_filter)

lemma run_v2: "run_load accepting [(lit ''000.jpg'', doc_v2)] db_v1 = (Inr 1, db_v2)"
  by (simp add: load_defs accepting_def doc_v2_def widget_def bolt_def tables_v1_def tables_v2_def
      db_v1_def db_v2_def del: set_filter)

lemma wf_empty: "wf_tables (durable empty_db)"
  by (simp add: wf_tables_def empty_db_def empty_tables_def)

lemma loop_001: "load_loop rejecting_001 [(lit ''000.jpg'', doc_v1)] empty_db = (Inr (), db_midway)"
  by (simp add: load_defs rejecting_001_def empty_db_def empty_tables_def doc_v1_def widget_def
      tables_v1_def db_midway_def del: set_filter)

lemma loop_accepting: "load_loop accepting [(lit ''000.jpg'', doc_v1)] empty_db = (Inr (), db_midway)"
  by (simp add: load_defs accepting_def empty_db_def empty_tables_def doc_v1_def widget_def
      tables_v1_def db_midway_def del: set_filter)

lemma upsert_001: "upsert rejecting_001 (lit ''001.jpg'') doc_v2 db_midway = (Inl DatabaseError, db_midway)"
  by (simp add: load_defs rejecting_001_def tables_v1_def db_midway_def del: set_filter)

lemma load_v1: "load accepting [(lit ''000.jpg'', doc_v1)] empty_db = (Inr 1, db_v1)"
  by (simp add: load_defs accepting_def empty_db_def empty_tables_def doc_v1_def widget_def
      tables_v1_def db_v1_def del: set_filter)

lemma wf_ab: "wf_tables (durable db_ab)"
  by (simp add: wf_tables_def db_ab_def tables_ab_def lit_def)

lemma runs_ab: "load_runs accepting [[(lit ''b.jpg'', doc_v2)]] db_ab = db_ab2"
  by (simp add: load_defs accepting_def doc_v2_def widget_def bolt_def tables_ab_def tables_ab2_def
      db_ab_def db_ab2_def del: set_filter)

lemma run_frac1: "run_load accepting [(lit ''000.jpg'', doc_frac)] empty_db = (Inr 1, db_frac 1)"
  by (simp add: load_defs accepting_def empty_db_def empty_tables_def doc_frac_def gasket_def
      tables_frac_def db_frac_def del: set_filter)

lemma run_frac2: "run_load accepting [(lit ''000.jpg'', doc_frac)] (db_frac 1) = (Inr 1, db_frac 2)"
  by (simp add: load_defs accepting_def doc_frac_def gasket_def tables_frac_def db_frac_def
      del: set_filter)

subsection \<open>Reloading a document\<close>

text \<open>
  Claim C1 reads the stored fields as equal to those of the document. They are not when
  a number has more than two decimals: the columns are \<^verbatim>\<open>DECIMAL(10,2)\<close> and round what
  they are given. Loading twice a document whose line item has quantity 2.345, unit
  price 10.555 and total 0.005, both runs succeeding, leaves one line item with
  quantity 2.35, unit price 10.56 and total 0.01.
\<close>

theorem reload_stores_rounded_values:
  "wf_tables (durable empty_db)
   \<and> run_load accepting [(lit ''000.jpg'', doc_frac)] empty_db = (Inr 1, db_frac 1)
   \<and> run_load accepting [(lit ''000.jpg'', doc_frac)] (db_frac 1) = (Inr 1, db_frac 2)
   \<and> line_items doc_frac =
       [\<lparr>item = lit ''Gasket'', quantity = Finite (469 / 200), unit_price = Finite (2111 / 200),
         total = Finite (1 / 200)\<rparr>]
   \<and> line_item_rows (durable (db_frac 2)) =
       [\<lparr>item_pk = 2, doc_fk = 1, row_item = lit ''Gasket'', row_quantity = Num (47 / 20),
         row_unit_price = Num (264 / 25), row_total = Num (1 / 100)\<rparr>]
   \<and> (47 / 20 :: rat) \<noteq> 469 / 200 \<and> (264 / 25 :: rat) \<noteq> 2111 / 200 \<and> (1 / 100 :: rat) \<noteq> 1 / 200"
  using wf_empty run_frac1 run_frac2
  by (simp add: doc_frac_def gasket_def db_frac_def tables_frac_def)

text \<open>
  Claim C1, as amended. From any tables that satisfy the constraints of the schema,
  after a run of Load on a batch that holds a document for a name and a second run on a
  batch (a dictionary, so with distinct names) that holds a document for the same name,
  both runs succeeding, the durable tables hold exactly one document row for the name;
  its \<^verbatim>\<open>document_id\<close>, \<^verbatim>\<open>name\<close> and \<^verbatim>\<open>description\<close> are those of the second document as
  the columns \<^verbatim>\<open>VARCHAR(255)\<close>, \<^verbatim>\<open>VARCHAR(255)\<close> and \<^verbatim>\<open>TEXT\<close> store them; and the
  line-item rows under it are, one for one and in order, the line items of the second
  document as the columns store them, the three numbers rounded to two decimals by
  \<^verbatim>\<open>DECIMAL(10,2)\<close>. Nothing of the first document's line items is left.
\<close>

theorem load_twice_replaces:
  assumes "wf_tables (durable db0)"
    and "run_load en batch1 db0 = (Inr n1, db1)"
    and "run_load en batch2 db1 = (Inr n2, db2)"
    and "(fn, doc1) \<in> set batch1"
    and "distinct (map fst batch2)" and "(fn, doc2) \<in> set batch2"
  shows "holds_document en fn doc2 (durable db2)"
proof -
  from run_load_invariant [OF assms(1,2)] have wf1: "wf_tables (durable db1)" by simp
  from run_load_names [OF assms(1,2,4)]
  have "length fn \<le> 255 \<or> fn \<in> set (map filename (documents (durable db1)))
        \<or> take 255 fn \<in> set (map filename (documents (durable db1)))" by blast
  from run_load_holds [OF wf1 assms(3,5,6) this] show ?thesis .
qed

theorem load_twice_replaces_witness:
  "wf_tables (durable empty_db)
   \<and> run_load accepting [(lit ''000.jpg'', doc_v1)] empty_db = (Inr 1, db_v1)
   \<and> run_load accepting [(lit ''000.jpg'', doc_v2)] db_v1 = (Inr 1, db_v2)
   \<and> holds_document accepting (lit ''000.jpg'') doc_v2 (durable db_v2)
   \<and> documents (durable db_v2) =
       [\<lparr>doc_pk = 1, filename = lit ''000.jpg'', row_document_id = lit ''INV-2'',
         row_name = lit ''Acme Ltd'', row_description = lit ''parts''\<rparr>]
   \<and> line_item_rows (durable db_v2) =
       [\<lparr>item_pk = 2, doc_fk = 1, row_item = lit ''Bolt'', row_quantity = Num 3,
         row_unit_price = Num 4, row_total = Num 12\<rparr>,
        \<lparr>item_pk = 3, doc_fk = 1, row_item = lit ''Widget'', row_quantity = Num 2,
         row_unit_price = Num (21 / 2), row_total = Num 0\<rparr>]"
proof -
  have "holds_document accepting (lit ''000.jpg'') doc_v2 (durable db_v2)"
    by (rule load_twice_replaces [OF wf_empty run_v1 run_v2, of "lit ''000.jpg''" doc_v1 doc_v2]) simp_all
  moreover have "documents (durable db_v2) =
       [\<lparr>doc_pk = 1, filename = lit ''000.jpg'', row_document_id = lit ''INV-2'',
         row_name = lit ''Acme Ltd'', row_description = lit ''parts''\<rparr>]"
    "line_item_rows (durable db_v2) =
       [\<lparr>item_pk = 2, doc_fk = 1, row_item = lit ''Bolt'', row_quantity = Num 3,
         row_unit_price = Num 4, row_total = Num 12\<rparr>,
        \<lparr>item_pk = 3, doc_fk = 1, row_item = lit ''Widget'', row_quantity = Num 2,
         row_unit_price = Num (21 / 2), row_total = Num 0\<rparr>]"
    by (simp_all add: db_v2_def tables_v2_def)
  ultimately show ?thesis using wf_empty run_v1 run_v2 by simp
qed

text \<open>
  A line item whose text fits the column and whose numbers have at most two decimals
  and stay below \<open>10 ^ 8\<close> is stored with its own values.
\<close>

lemma item_columns_exact:
  assumes "length (item it) \<le> 255"
    and "quantity it = Finite q" "of_int \<lfloor>q * 100\<rfloor> = q * 100" "\<bar>q\<bar> < 10 ^ 8"
    and "unit_price it = Finite p" "of_int \<lfloor>p * 100\<rfloor> = p * 100" "\<bar>p\<bar> < 10 ^ 8"
    and "total it = Finite t" "of_int \<lfloor>t * 100\<rfloor> = t * 100" "\<bar>t\<bar> < 10 ^ 8"
  shows "item_columns en it = Inr (item it, Num q, Num p, Num t)"
  using assms by (simp add: item_columns_def varchar_255_short decimal_10_2_exact)

subsection \<open>One commit for the batch\<close>

text \<open>
  Claim C2. When the loop has gone through part of the batch and the step for the next
  document raises, \<^verbatim>\<open>load\<close> returns that exception and the durable tables are those
  from before the call. Whenever \<^verbatim>\<open>load\<close> returns an exception, the durable tables
  are unchanged. When \<^verbatim>\<open>load\<close> returns normally, it reports the size of the batch, and
  the durable tables are the pending tables left by the whole loop, during which the
  durable tables did not change: everything is committed together at the end.
\<close>

theorem load_commits_all_or_nothing:
  "(load_loop en b1 db = (Inr u, db1) \<and> upsert en fn doc db1 = (Inl e, db2) \<longrightarrow>
      load en (b1 @ (fn, doc) # b2) db = (Inl e, db2) \<and> durable db2 = durable db)
   \<and> (load en batch db = (Inl e', db') \<longrightarrow> durable db' = durable db)
   \<and> (load en' batch' dbs = (Inr n, dbs') \<longrightarrow>
        n = length batch'
        \<and> (\<exists>d. load_loop en' batch' dbs = (Inr (), d) \<and> durable d = durable dbs
              \<and> dbs' = d\<lparr>durable := pending d\<rparr>))"
proof (intro conjI impI)
  assume a: "load_loop en b1 db = (Inr u, db1) \<and> upsert en fn doc db1 = (Inl e, db2)"
  then have "load_loop en (b1 @ (fn, doc) # b2) db = (Inl e, db2)"
    by (simp add: load_loop_append)
  then show "load en (b1 @ (fn, doc) # b2) db = (Inl e, db2)" by (simp add: load_def)
  from a load_loop_durable [of en b1 db "Inr u" db1] upsert_durable [of en fn doc db1 "Inl e" db2]
  show "durable db2 = durable db" by simp
next
  assume "load en batch db = (Inl e', db')"
  from load_result [OF this] show "durable db' = durable db" by auto
next
  assume l: "load en' batch' dbs = (Inr n, dbs')"
  from load_result [OF l] show "n = length batch'" by auto
  from load_result [OF l] obtain d where d: "load_loop en' batch' dbs = (Inr (), d)"
    "dbs' = d\<lparr>durable := pending d\<rparr>" by auto
  from load_loop_durable [OF d(1)] d
  show "\<exists>d. load_loop en' batch' dbs = (Inr (), d) \<and> durable d = durable dbs
          \<and> dbs' = d\<lparr>durable := pending d\<rparr>"
    by blast
qed

theorem load_commits_all_or_nothing_witness:
  "load_loop rejecting_001 [(lit ''000.jpg'', doc_v1)] empty_db = (Inr (), db_midway)
   \<and> upsert rejecting_001 (lit ''001.jpg'') doc_v2 db_midway = (Inl DatabaseError, db_midway)
   \<and> load rejecting_001 [(lit ''000.jpg'', doc_v1), (lit ''001.jpg'', doc_v2)] empty_db =
       (Inl DatabaseError, db_midway)
   \<and> durable db_midway = durable empty_db
   \<and> pending db_midway = tables_v1
   \<and> load accepting [(lit ''000.jpg'', doc_v1)] empty_db = (Inr 1, db_v1)
   \<and> load_loop accepting [(lit ''000.jpg'', doc_v1)] empty_db = (Inr (), db_midway)
   \<and> db_v1 = db_midway\<lparr>durable := pending db_midway\<rparr>"
proof -
  note inst = load_commits_all_or_nothing [of rejecting_001 "[(lit ''000.jpg'', doc_v1)]" empty_db "()"
      db_midway "lit ''001.jpg''" doc_v2 DatabaseError db_midway "[]"
      "[(lit ''000.jpg'', doc_v1), (lit ''001.jpg'', doc_v2)]" DatabaseError db_midway
      accepting "[(lit ''000.jpg'', doc_v1)]" empty_db 1 db_v1]
  from inst loop_001 upsert_001
  have fail: "load rejecting_001 [(lit ''000.jpg'', doc_v1), (lit ''001.jpg'', doc_v2)] empty_db =
       (Inl DatabaseError, db_midway)" "durable db_midway = durable empty_db" by simp_all
  from inst load_v1 obtain d where d: "load_loop accepting [(lit ''000.jpg'', doc_v1)] empty_db = (Inr (), d)"
    "db_v1 = d\<lparr>durable := pending d\<rparr>" by blast
  from d(1) loop_accepting have "d = db_midway" by simp
  with d have ok: "load_loop accepting [(lit ''000.jpg'', doc_v1)] empty_db = (Inr (), db_midway)"
    "db_v1 = db_midway\<lparr>durable := pending db_midway\<rparr>" by simp_all
  have "pending db_midway = tables_v1" by (simp add: db_midway_def)
  with fail ok loop_001 upsert_001 load_v1 show ?thesis by simp
qed

subsection \<open>Invariants of the persisted state\<close>

lemma load_runs_invariant:
  "wf_tables (durable db) \<Longrightarrow>
   wf_tables (durable (load_runs en batches db))
   \<and> doc_keys (durable db) \<subseteq> doc_keys (durable (load_runs en batches db))"
proof (induction batches arbitrary: db)
  case Nil
  then show ?case by simp
next
  case (Cons batch batches)
  obtain r db1 where run: "run_load en batch db = (r, db1)" by (cases "run_load en batch db")
  from run_load_invariant [OF Cons.prems run]
  have wf1: "wf_tables (durable db1)" and k1: "doc_keys (durable db) \<subseteq> doc_keys (durable db1)" by simp_all
  from Cons.IH [OF wf1] k1 run show ?case by auto
qed

lemma load_runs_frame:
  "wf_tables (durable db) \<Longrightarrow> row \<in> set (documents (durable db)) \<Longrightarrow>
   filename row \<notin> (\<Union>batch\<in>set batches. fst ` set batch) \<Longrightarrow>
   row \<in> set (documents (durable (load_runs en batches db)))
   \<and> item_rows_of (doc_pk row) (durable (load_runs en batches db))
       = item_rows_of (doc_pk row) (durable db)"
proof (induction batches arbitrary: db)
  case Nil
  then show ?case by simp
next
  case (Cons batch batches)
  obtain r db1 where run: "run_load en batch db = (r, db1)" by (cases "run_load en batch db")
  from Cons.prems(3) have nb: "filename row \<notin> fst ` set batch"
    and rest: "filename row \<notin> (\<Union>batch\<in>set batches. fst ` set batch)" by auto
  from run_load_invariant [OF Cons.prems(1) run] have wf1: "wf_tables (durable db1)" by simp
  from run_load_frame [OF Cons.prems(1) run Cons.prems(2) nb]
  have f1: "row \<in> set (documents (durable db1))"
    "item_rows_of (doc_pk row) (durable db1) = item_rows_of (doc_pk row) (durable db)" by simp_all
  from Cons.IH [OF wf1 f1(1) rest] f1(2) run show ?case by simp
qed

text \<open>
  Claim C8. From tables that satisfy the constraints of the schema, after any sequence
  of runs of Load, failed or not: no filename occurs in two document rows; every line
  item references a document row that exists; every document row that was there (its
  key and its filename) is still there; and a document row whose filename is in none
  of the batches is still there unchanged, with exactly the line-item rows it had, so
  that line items are deleted only under a document that a batch supersedes.
\<close>

theorem load_runs_keep_schema_invariants:
  assumes "wf_tables (durable db)"
  shows "distinct (map filename (documents (durable (load_runs en batches db))))
    \<and> (\<forall>i\<in>set (line_item_rows (durable (load_runs en batches db))).
          doc_fk i \<in> set (map doc_pk (documents (durable (load_runs en batches db)))))
    \<and> doc_keys (durable db) \<subseteq> doc_keys (durable (load_runs en batches db))
    \<and> (\<forall>row\<in>set (documents (durable db)).
          filename row \<notin> (\<Union>batch\<in>set batches. fst ` set batch) \<longrightarrow>
            row \<in> set (documents (durable (load_runs en batches db)))
            \<and> item_rows_of (doc_pk row) (durable (load_runs en batches db))
                = item_rows_of (doc_pk row) (durable db))"
  using load_runs_invariant [OF assms, of en batches] load_runs_frame [OF assms, of _ batches en]
  by (simp add: wf_tables_def)

theorem load_runs_keep_schema_invariants_witness:
  "wf_tables (durable db_ab)
   \<and> load_runs accepting [[(lit ''b.jpg'', doc_v2)]] db_ab = db_ab2
   \<and> distinct (map filename (documents (durable db_ab2)))
   \<and> map doc_fk (line_item_rows (durable db_ab2)) = [1, 2, 2]
   \<and> map doc_pk (documents (durable db_ab2)) = [1, 2]
   \<and> doc_keys (durable db_ab) \<subseteq> doc_keys (durable db_ab2)
   \<and> doc_keys (durable db_ab2) = {(1, lit ''a.jpg''), (2, lit ''b.jpg'')}
   \<and> hd (documents (durable db_ab)) \<in> set (documents (durable db_ab2))
   \<and> filename (hd (documents (durable db_ab))) = lit ''a.jpg''
   \<and> item_rows_of 1 (durable db_ab2) = item_rows_of 1 (durable db_ab)
   \<and> map item_pk (item_rows_of 1 (durable db_ab2)) = [1]
   \<and> map item_pk (item_rows_of 2 (durable db_ab)) = [2]
   \<and> map item_pk (item_rows_of 2 (durable db_ab2)) = [3, 4]"
proof -
  note inst = load_runs_keep_schema_invariants [OF wf_ab, of accepting "[[(lit ''b.jpg'', doc_v2)]]"]
  have row: "hd (documents (durable db_ab)) \<in> set (documents (durable db_ab))"
    "filename (hd (documents (durable db_ab))) = lit ''a.jpg''"
    "doc_pk (hd (documents (durable db_ab))) = 1"
    "filename (hd (documents (durable db_ab))) \<notin> (\<Union>batch\<in>set [[(lit ''b.jpg'', doc_v2)]]. fst ` set batch)"
    by (simp_all add: db_ab_def tables_ab_def lit_def)
  from inst runs_ab
  have "distinct (map filename (documents (durable db_ab2)))
    \<and> doc_keys (durable db_ab) \<subseteq> doc_keys (durable db_ab2)" by simp
  moreover from inst [THEN conjunct2, THEN conjunct2, THEN conjunct2, rule_format, OF row(1,4)]
    runs_ab row(3)
  have "hd (documents (durable db_ab)) \<in> set (documents (durable db_ab2))"
    "item_rows_of 1 (durable db_ab2) = item_rows_of 1 (durable db_ab)" by simp_all
  moreover have "doc_keys (durable db_ab2) = {(1, lit ''a.jpg''), (2, lit ''b.jpg'')}"
    "map doc_fk (line_item_rows (durable db_ab2)) = [1, 2, 2]"
    "map doc_pk (documents (durable db_ab2)) = [1, 2]"
    "map item_pk (item_rows_of 1 (durable db_ab2)) = [1]"
    "map item_pk (item_rows_of 2 (durable db_ab)) = [2]"
    "map item_pk (item_rows_of 2 (durable db_ab2)) = [3, 4]"
    by (simp_all add: doc_keys_def item_rows_of_def db_ab_def db_ab2_def tables_ab_def tables_ab2_def)
  ultimately show ?thesis using wf_ab runs_ab row(2) by simp
qed

section \<open>Properties of the pipeline\<close>

lemma lit_append: "lit a @ lit b = lit (a @ b)"
  by (simp add: lit_def)

lemma lit_eq_iff: "lit a = lit b \<longleftrightarrow> a = b"
  by (simp add: lit_def inj_map_eq_map inj_def)

lemma parse_invoice: "parse_response loads_stub invoice_response = Inr (Some invoice)"
  by (simp add: parse_response_def find_brace_def slice_def loads_stub_def invoice_response_def
      invoice_span_def lit_def)

lemma parse_refusal: "parse_response loads_stub (lit ''I cannot read this image.'') = Inr None"
  by (simp add: parse_response_def find_brace_def lit_def)

lemma transform_invoice:
  "transform ip [(lit ''000.jpg'', invoice)] = Inr [(lit ''000.jpg'', doc_v1)]"
  by (simp add: transform_def clean_document_def clean_line_items_def clean_item_def get_def
      clean_text_def strip_def is_space_def py_str_def invoice_def doc_v1_def widget_def
      parse_decimal_def clean_numeric_def keep_numeric_def is_digit_def digit_value_def
      digits_val_def to_float_def overflow_bound_def lit_def)

lemma run_load_invoice:
  assumes "\<forall>d st. \<not> rejects en d st" "durable db = empty_tables"
  shows "fst (run_load en [(lit ''000.jpg'', doc_v1)] db) = Inr 1"
    and "documents (durable (snd (run_load en [(lit ''000.jpg'', doc_v1)] db))) =
          [\<lparr>doc_pk = Suc (documents_id_seq db), filename = lit ''000.jpg'',
            row_document_id = lit ''INV-1'', row_name = lit ''Acme'', row_description = lit ''N/A''\<rparr>]"
    and "line_item_rows (durable (snd (run_load en [(lit ''000.jpg'', doc_v1)] db))) =
          [\<lparr>item_pk = Suc (line_items_id_seq db), doc_fk = Suc (documents_id_seq db),
            row_item = lit ''Widget'', row_quantity = Num 2, row_unit_price = Num (21 / 2),
            row_total = Num 0\<rparr>]"
  using assms
  by (simp_all add: load_defs empty_tables_def doc_v1_def widget_def del: set_filter)

text \<open>
  Claim C7, as amended. For the batch \<^verbatim>\<open>['000', '001']\<close>, when the response for
  \<^verbatim>\<open>000\<close> yields the invoice of the scenario and the response for \<^verbatim>\<open>001\<close> is a text in
  which no balanced object is found, the store is empty at the start and neither the
  database nor the report step raises, then extraction keeps the one entry
  \<^verbatim>\<open>000.jpg\<close>, the pipeline ends normally, and the durable tables hold exactly one
  document row, named \<^verbatim>\<open>000.jpg\<close>, and exactly one line-item row, which references that
  document row: Widget, quantity 2.00, unit price 10.50, total 0.00.
\<close>

theorem batch_with_skipped_input:
  assumes "env_fetch env (lit ''000'') = Inr t0"
    and "parse_response (env_loads env) t0 = Inr (Some invoice)"
    and "env_fetch env (lit ''001'') = Inr t1"
    and "parse_response (env_loads env) t1 = Inr None"
    and "\<forall>d st. \<not> rejects (env_engine env) d st"
    and "\<forall>t. env_report env t = Inr ()"
    and "durable db = empty_tables"
  shows "extract_text_from_images (env_fetch env) (env_loads env) [lit ''000'', lit ''001'']
           = Inr [(lit ''000.jpg'', invoice)]
    \<and> fst (run_etl env [lit ''000'', lit ''001''] db) = Inr ()
    \<and> documents (durable (snd (run_etl env [lit ''000'', lit ''001''] db))) =
        [\<lparr>doc_pk = Suc (documents_id_seq db), filename = lit ''000.jpg'',
          row_document_id = lit ''INV-1'', row_name = lit ''Acme'', row_description = lit ''N/A''\<rparr>]
    \<and> line_item_rows (durable (snd (run_etl env [lit ''000'', lit ''001''] db))) =
        [\<lparr>item_pk = Suc (line_items_id_seq db), doc_fk = Suc (documents_id_seq db),
          row_item = lit ''Widget'', row_quantity = Num 2, row_unit_price = Num (21 / 2),
          row_total = Num 0\<rparr>]"
proof -
  have ex: "extract_text_from_images (env_fetch env) (env_loads env) [lit ''000'', lit ''001'']
           = Inr [(lit ''000.jpg'', invoice)]"
    using assms(1-4) by (simp add: extract_text_from_images_def lit_append)
  note tr = transform_invoice [of "env_interp env"]
  obtain r db' where run: "run_load (env_engine env) [(lit ''000.jpg'', doc_v1)] db = (r, db')"
    by (cases "run_load (env_engine env) [(lit ''000.jpg'', doc_v1)] db")
  from run_load_invoice [OF assms(5,7)] run
  have r: "r = Inr 1"
    and docs: "documents (durable db') =
          [\<lparr>doc_pk = Suc (documents_id_seq db), filename = lit ''000.jpg'',
            row_document_id = lit ''INV-1'', row_name = lit ''Acme'', row_description = lit ''N/A''\<rparr>]"
    and items: "line_item_rows (durable db') =
          [\<lparr>item_pk = Suc (line_items_id_seq db), doc_fk = Suc (documents_id_seq db),
            row_item = lit ''Widget'', row_quantity = Num 2, row_unit_price = Num (21 / 2),
            row_total = Num 0\<rparr>]" by simp_all
  have "run_etl env [lit ''000'', lit ''001''] db = (Inr (), db')"
    using assms(6) by (simp add: run_etl_def ex tr run r)
  with ex docs items show ?thesis by simp
qed

theorem batch_with_skipped_input_witness:
  "env_fetch env_no_object (lit ''000'') = Inr invoice_response
   \<and> parse_response (env_loads env_no_object) invoice_response = Inr (Some invoice)
   \<and> env_fetch env_no_object (lit ''001'') = Inr (lit ''I cannot read this image.'')
   \<and> parse_response (env_loads env_no_object) (lit ''I cannot read this image.'') = Inr None
   \<and> (\<forall>d st. \<not> rejects (env_engine env_no_object) d st)
   \<and> (\<forall>t. env_report env_no_object t = Inr ())
   \<and> durable empty_db = empty_tables
   \<and> fst (run_etl env_no_object [lit ''000'', lit ''001''] empty_db) = Inr ()
   \<and> documents (durable (snd (run_etl env_no_object [lit ''000'', lit ''001''] empty_db))) =
        [\<lparr>doc_pk = 1, filename = lit ''000.jpg'', row_document_id = lit ''INV-1'',
          row_name = lit ''Acme'', row_description = lit ''N/A''\<rparr>]
   \<and> line_item_rows (durable (snd (run_etl env_no_object [lit ''000'', lit ''001''] empty_db))) =
        [\<lparr>item_pk = 1, doc_fk = 1, row_item = lit ''Widget'', row_quantity = Num 2,
          row_unit_price = Num (21 / 2), row_total = Num 0\<rparr>]"
proof -
  have h: "env_fetch env_no_object (lit ''000'') = Inr invoice_response"
    "parse_response (env_loads env_no_object) invoice_response = Inr (Some invoice)"
    "env_fetch env_no_object (lit ''001'') = Inr (lit ''I cannot read this image.'')"
    "parse_response (env_loads env_no_object) (lit ''I cannot read this image.'') = Inr None"
    "\<forall>d st. \<not> rejects (env_engine env_no_object) d st"
    "\<forall>t. env_report env_no_object t = Inr ()"
    "durable empty_db = empty_tables"
    by (simp_all add: env_no_object_def parse_invoice parse_refusal accepting_def empty_db_def
        lit_eq_iff)
  from batch_with_skipped_input [OF h] h show ?thesis by (simp add: empty_db_def)
qed

text \<open>
  Claim C7 as stated does not hold when the extraction of \<^verbatim>\<open>001\<close> fails because the
  call raises: no exception is caught in \<^verbatim>\<open>extract_text_from_images\<close> or in
  \<^verbatim>\<open>run_etl\<close>, so the batch ends with that exception and nothing is persisted,
  although the response for \<^verbatim>\<open>000\<close> did yield the invoice.
\<close>

theorem failed_call_aborts_batch:
  "env_fetch env_unavailable (lit ''000'') = Inr invoice_response
   \<and> parse_response (env_loads env_unavailable) invoice_response = Inr (Some invoice)
   \<and> env_fetch env_unavailable (lit ''001'') = Inl ClientError
   \<and> run_etl env_unavailable [lit ''000'', lit ''001''] empty_db = (Inl ClientError, empty_db)
   \<and> documents (durable empty_db) = []"
  by (simp add: run_etl_def extract_text_from_images_def env_unavailable_def parse_invoice
      empty_db_def empty_tables_def lit_def)

end
